theory Spec2Isabelle
  imports Main "HOL-Library.Word" "HOL-Library.Monad_Syntax" "HOL-Library.Code_Target_Nat"
begin

unbundle bit_operations_syntax

section \<open>sokol\_fetch.h: data model\<close>

text \<open>
  The embedding follows the default native build of \<^verbatim>\<open>sokol_fetch.h\<close>: POSIX, with
  threads (\<^verbatim>\<open>_SFETCH_HAS_THREADS\<close>), \<^verbatim>\<open>SOKOL_DEBUG\<close> defined and \<^verbatim>\<open>SOKOL_ASSERT\<close> being
  \<^verbatim>\<open>assert\<close>.  Every function that can trip an assertion returns an \<open>option\<close>:
  \<open>None\<close> means that the call does not return (the process aborts in an assertion, reads
  outside an array, divides by zero or loops forever).

  Slot ids, generation counters, lanes and sizes are machine words.  Array indices and
  element counts (ring head, tail and size, pool size and top of the free stack) are
  \<open>nat\<close>: \<^verbatim>\<open>_sfetch_pool_init\<close> asserts fewer than \<open>(1<<16)-1 = 65535\<close> items, so none of them comes
  near \<open>2^32\<close>.  Pointers are addresses (\<open>nat\<close>, \<open>0\<close> is the null pointer), a C string
  argument is a \<open>string option\<close> (\<open>None\<close> is the null pointer) and \<^verbatim>\<open>malloc\<close> succeeds.
\<close>

type_synonym u32 = "32 word"
type_synonym u64 = "64 word"

definition SFETCH_MAX_PATH :: nat where
  "SFETCH_MAX_PATH = 1024"

definition SFETCH_MAX_USERDATA_UINT64 :: nat where
  "SFETCH_MAX_USERDATA_UINT64 = 16"

definition SFETCH_MAX_CHANNELS :: nat where
  "SFETCH_MAX_CHANNELS = 16"

definition SOKOL_ASSERT :: "bool \<Rightarrow> unit option" where
  "SOKOL_ASSERT c = (if c then Some () else None)"

text \<open>Reading and writing a C array; an index outside the array does not return.\<close>

definition array_get :: "'a list \<Rightarrow> nat \<Rightarrow> 'a option" where
  "array_get xs i = (if i < length xs then Some (xs ! i) else None)"

definition array_set :: "'a list \<Rightarrow> nat \<Rightarrow> 'a \<Rightarrow> 'a list option" where
  "array_set xs i v = (if i < length xs then Some (xs[i := v]) else None)"

record sfetch_desc_t =
  max_requests :: nat
  num_channels :: nat
  num_lanes :: nat

record sfetch_response_t =
  r_handle :: u32
  r_opened :: bool
  r_fetched :: bool
  r_paused :: bool
  r_finished :: bool
  r_failed :: bool
  r_cancelled :: bool
  r_channel :: u32
  r_lane :: u32
  r_path :: string
  r_user_data :: "8 word list"
  r_content_size :: u64
  r_content_offset :: u64
  r_fetched_size :: u64
  r_buffer_ptr :: nat
  r_buffer_size :: u64

text \<open>
  \<open>req_user_data_ptr\<close> is \<open>None\<close> for a null pointer and otherwise the bytes that can be
  read behind the pointer.  \<open>req_callback\<close> is a function pointer, \<open>0\<close> when missing.
\<close>

record sfetch_request_t =
  req_channel :: u32
  req_path :: "string option"
  req_callback :: nat
  req_buffer_ptr :: nat
  req_buffer_size :: u64
  req_user_data_ptr :: "8 word list option"
  req_user_data_size :: u32

record sfetch_buffer_t =
  ptr :: nat
  bsize :: u64

record sfetch_item_user_t =
  u_pause :: bool
  u_cont :: bool
  u_cancel :: bool
  u_content_size :: u64
  u_content_offset :: u64
  u_fetched_size :: u64
  u_finished :: bool
  u_user_data_size :: u32
  u_user_data :: "8 word list"

record sfetch_item_thread_t =
  t_content_size :: u64
  t_content_offset :: u64
  t_fetched_size :: u64
  t_failed :: bool
  t_finished :: bool
  t_file_handle :: nat

datatype sfetch_state_t =
  INITIAL | ALLOCATED | OPENING | OPENED | FETCHING | FETCHED | PAUSED | FAILED

definition SFETCH_INVALID_LANE :: u32 where
  "SFETCH_INVALID_LANE = 0xFFFFFFFF"

definition SFETCH_INVALID_FILE_HANDLE :: nat where
  "SFETCH_INVALID_FILE_HANDLE = 0"

record sfetch_item_t =
  handle :: u32
  state :: sfetch_state_t
  channel :: u32
  lane :: u32
  callback :: nat
  buffer :: sfetch_buffer_t
  thread :: sfetch_item_thread_t
  user :: sfetch_item_user_t
  path :: string

record sfetch_pool_t =
  pool_size :: nat
  free_top :: nat
  items :: "sfetch_item_t list"
  free_slots :: "u32 list"
  gen_ctrs :: "u32 list"
  pool_valid :: bool

record sfetch_ring_t =
  head :: nat
  tail :: nat
  num :: nat
  buf :: "u32 list"

record sfetch_channel_t =
  free_lanes :: sfetch_ring_t
  user_sent :: sfetch_ring_t
  user_incoming :: sfetch_ring_t
  user_outgoing :: sfetch_ring_t
  thread_incoming :: sfetch_ring_t
  thread_outgoing :: sfetch_ring_t
  chn_valid :: bool

record sfetch_t =
  is_setup :: bool
  valid :: bool
  in_callback :: bool
  desc :: sfetch_desc_t
  pool :: sfetch_pool_t
  chn :: "sfetch_channel_t list"

section \<open>General helper functions\<close>

definition sfetch_def :: "nat \<Rightarrow> nat \<Rightarrow> nat" where
  "sfetch_def val d = (if val = 0 then d else val)"

definition sfetch_path_make :: "string option \<Rightarrow> string" where
  "sfetch_path_make src =
     (case src of
        None \<Rightarrow> []
      | Some s \<Rightarrow> if length s < SFETCH_MAX_PATH then s else [])"

definition sfetch_make_id :: "u32 \<Rightarrow> u32 \<Rightarrow> u32" where
  "sfetch_make_id index gen_ctr = push_bit 16 gen_ctr OR (index AND 0xFFFF)"

definition sfetch_slot_index :: "u32 \<Rightarrow> u32" where
  "sfetch_slot_index slot_id = slot_id AND 0xFFFF"

section \<open>The ring buffer of slot ids\<close>

definition sfetch_ring_wrap :: "sfetch_ring_t \<Rightarrow> nat \<Rightarrow> nat option" where
  "sfetch_ring_wrap rb i = (if num rb = 0 then None else Some (i mod num rb))"

definition sfetch_ring_init :: "nat \<Rightarrow> sfetch_ring_t option" where
  "sfetch_ring_init num_slots = do {
     SOKOL_ASSERT (num_slots > 0);
     Some \<lparr> head = 0, tail = 0, num = num_slots + 1,
            buf = replicate (num_slots + 1) 0 \<rparr>
   }"

definition sfetch_ring_full :: "sfetch_ring_t \<Rightarrow> bool option" where
  "sfetch_ring_full rb = do {
     SOKOL_ASSERT (buf rb \<noteq> []);
     h \<leftarrow> sfetch_ring_wrap rb (head rb + 1);
     Some (h = tail rb)
   }"

definition sfetch_ring_empty :: "sfetch_ring_t \<Rightarrow> bool option" where
  "sfetch_ring_empty rb = do {
     SOKOL_ASSERT (buf rb \<noteq> []);
     Some (head rb = tail rb)
   }"

definition sfetch_ring_count :: "sfetch_ring_t \<Rightarrow> nat option" where
  "sfetch_ring_count rb = do {
     SOKOL_ASSERT (buf rb \<noteq> []);
     let count = (if head rb \<ge> tail rb then head rb - tail rb
                  else (head rb + num rb) - tail rb);
     SOKOL_ASSERT (count < num rb);
     Some count
   }"

definition sfetch_ring_enqueue :: "sfetch_ring_t \<Rightarrow> u32 \<Rightarrow> sfetch_ring_t option" where
  "sfetch_ring_enqueue rb slot_id = do {
     SOKOL_ASSERT (buf rb \<noteq> []);
     full \<leftarrow> sfetch_ring_full rb;
     SOKOL_ASSERT (\<not> full);
     SOKOL_ASSERT (head rb < num rb);
     b \<leftarrow> array_set (buf rb) (head rb) slot_id;
     h \<leftarrow> sfetch_ring_wrap rb (head rb + 1);
     Some (rb\<lparr> buf := b, head := h \<rparr>)
   }"

definition sfetch_ring_dequeue :: "sfetch_ring_t \<Rightarrow> (u32 \<times> sfetch_ring_t) option" where
  "sfetch_ring_dequeue rb = do {
     SOKOL_ASSERT (buf rb \<noteq> []);
     empty \<leftarrow> sfetch_ring_empty rb;
     SOKOL_ASSERT (\<not> empty);
     SOKOL_ASSERT (tail rb < num rb);
     slot_id \<leftarrow> array_get (buf rb) (tail rb);
     t \<leftarrow> sfetch_ring_wrap rb (tail rb + 1);
     Some (slot_id, rb\<lparr> tail := t \<rparr>)
   }"

definition sfetch_ring_peek :: "sfetch_ring_t \<Rightarrow> nat \<Rightarrow> u32 option" where
  "sfetch_ring_peek rb index = do {
     SOKOL_ASSERT (buf rb \<noteq> []);
     empty \<leftarrow> sfetch_ring_empty rb;
     SOKOL_ASSERT (\<not> empty);
     count \<leftarrow> sfetch_ring_count rb;
     SOKOL_ASSERT (index < count);
     rb_index \<leftarrow> sfetch_ring_wrap rb (tail rb + index);
     array_get (buf rb) rb_index
   }"

section \<open>The request pool\<close>

definition zero_item :: sfetch_item_t where
  "zero_item = \<lparr> handle = 0, state = INITIAL, channel = 0, lane = 0, callback = 0,
     buffer = \<lparr> ptr = 0, bsize = 0 \<rparr>,
     thread = \<lparr> t_content_size = 0, t_content_offset = 0, t_fetched_size = 0,
                t_failed = False, t_finished = False, t_file_handle = 0 \<rparr>,
     user = \<lparr> u_pause = False, u_cont = False, u_cancel = False, u_content_size = 0,
              u_content_offset = 0, u_fetched_size = 0, u_finished = False,
              u_user_data_size = 0,
              u_user_data = replicate (SFETCH_MAX_USERDATA_UINT64 * 8) 0 \<rparr>,
     path = [] \<rparr>"

text \<open>
  \<^verbatim>\<open>memcpy(item->user.user_data, request->user_data_ptr, request->user_data_size)\<close>:
  reading more bytes than the source block holds does not return.
\<close>

definition user_data_memcpy :: "8 word list \<Rightarrow> 8 word list \<Rightarrow> nat \<Rightarrow> 8 word list option" where
  "user_data_memcpy dst src n =
     (if n \<le> length src then Some (take n src @ drop n dst) else None)"

definition sfetch_item_init ::
  "sfetch_item_t \<Rightarrow> u32 \<Rightarrow> sfetch_request_t \<Rightarrow> sfetch_item_t option" where
  "sfetch_item_init item slot_id request = do {
     SOKOL_ASSERT (handle item = 0);
     SOKOL_ASSERT (req_path request \<noteq> None);
     let item = item\<lparr> handle := slot_id, state := INITIAL, channel := req_channel request,
                      lane := SFETCH_INVALID_LANE, callback := req_callback request,
                      buffer := \<lparr> ptr = req_buffer_ptr request,
                                  bsize = req_buffer_size request \<rparr>,
                      path := sfetch_path_make (req_path request),
                      thread := (thread item)\<lparr> t_file_handle := SFETCH_INVALID_FILE_HANDLE \<rparr> \<rparr>;
     case req_user_data_ptr request of
       None \<Rightarrow> Some item
     | Some src \<Rightarrow>
         if req_user_data_size request > 0 \<and>
            unat (req_user_data_size request) \<le> SFETCH_MAX_USERDATA_UINT64 * 8
         then do {
           d \<leftarrow> user_data_memcpy (u_user_data (user item)) src
                  (unat (req_user_data_size request));
           Some (item\<lparr> user := (user item)\<lparr>
                   u_user_data_size := req_user_data_size request, u_user_data := d \<rparr> \<rparr>)
         }
         else Some item
   }"

definition sfetch_item_discard :: "sfetch_item_t \<Rightarrow> sfetch_item_t option" where
  "sfetch_item_discard item = do {
     SOKOL_ASSERT (handle item \<noteq> 0);
     Some zero_item
   }"

text \<open>
  The loop of \<^verbatim>\<open>_sfetch_pool_init\<close> pushes the indices \<open>size - 1\<close> down to \<open>1\<close> on the
  free stack.
\<close>

definition sfetch_pool_init :: "nat \<Rightarrow> sfetch_pool_t option" where
  "sfetch_pool_init num_items = do {
     SOKOL_ASSERT (num_items > 0 \<and> num_items < 65535);
     Some \<lparr> pool_size = num_items + 1, free_top = num_items,
            items = replicate (num_items + 1) zero_item,
            free_slots = map of_nat (rev [1 ..< num_items + 1]),
            gen_ctrs = replicate (num_items + 1) 0,
            pool_valid = True \<rparr>
   }"

definition sfetch_pool_item_alloc ::
  "sfetch_pool_t \<Rightarrow> sfetch_request_t \<Rightarrow> (u32 \<times> sfetch_pool_t) option" where
  "sfetch_pool_item_alloc p request = do {
     SOKOL_ASSERT (pool_valid p);
     if free_top p > 0 then do {
       let ft = free_top p - 1;
       slot_index \<leftarrow> array_get (free_slots p) ft;
       SOKOL_ASSERT (slot_index > 0 \<and> unat slot_index < pool_size p);
       gen \<leftarrow> array_get (gen_ctrs p) (unat slot_index);
       gens \<leftarrow> array_set (gen_ctrs p) (unat slot_index) (gen + 1);
       let slot_id = sfetch_make_id slot_index (gen + 1);
       item \<leftarrow> array_get (items p) (unat slot_index);
       item \<leftarrow> sfetch_item_init item slot_id request;
       its \<leftarrow> array_set (items p) (unat slot_index) (item\<lparr> state := ALLOCATED \<rparr>);
       Some (slot_id, p\<lparr> free_top := ft, gen_ctrs := gens, items := its \<rparr>)
     }
     else Some (sfetch_make_id 0 0, p)
   }"

definition sfetch_pool_item_free :: "sfetch_pool_t \<Rightarrow> u32 \<Rightarrow> sfetch_pool_t option" where
  "sfetch_pool_item_free p slot_id = do {
     SOKOL_ASSERT (pool_valid p);
     let slot_index = sfetch_slot_index slot_id;
     SOKOL_ASSERT (slot_index > 0 \<and> unat slot_index < pool_size p);
     item \<leftarrow> array_get (items p) (unat slot_index);
     SOKOL_ASSERT (handle item = slot_id);
     SOKOL_ASSERT (slot_index \<notin> set (take (free_top p) (free_slots p)));
     item \<leftarrow> sfetch_item_discard item;
     its \<leftarrow> array_set (items p) (unat slot_index) item;
     fs \<leftarrow> array_set (free_slots p) (free_top p) slot_index;
     SOKOL_ASSERT (free_top p + 1 \<le> pool_size p - 1);
     Some (p\<lparr> items := its, free_slots := fs, free_top := free_top p + 1 \<rparr>)
   }"

text \<open>
  \<^verbatim>\<open>_sfetch_pool_item_at\<close> and \<^verbatim>\<open>_sfetch_pool_item_lookup\<close> return a pointer into the
  pool; the model returns the item (the inner \<open>None\<close> is the null pointer), and
  \<open>pool_item_store\<close> is a write through that pointer.
\<close>

definition sfetch_pool_item_at :: "sfetch_pool_t \<Rightarrow> u32 \<Rightarrow> sfetch_item_t option" where
  "sfetch_pool_item_at p slot_id = do {
     SOKOL_ASSERT (pool_valid p);
     let slot_index = sfetch_slot_index slot_id;
     SOKOL_ASSERT (slot_index > 0 \<and> unat slot_index < pool_size p);
     array_get (items p) (unat slot_index)
   }"

definition sfetch_pool_item_lookup ::
  "sfetch_pool_t \<Rightarrow> u32 \<Rightarrow> sfetch_item_t option option" where
  "sfetch_pool_item_lookup p slot_id = do {
     SOKOL_ASSERT (pool_valid p);
     if slot_id \<noteq> 0 then do {
       item \<leftarrow> sfetch_pool_item_at p slot_id;
       if handle item = slot_id then Some (Some item) else Some None
     }
     else Some None
   }"

definition pool_item_store :: "sfetch_pool_t \<Rightarrow> u32 \<Rightarrow> sfetch_item_t \<Rightarrow> sfetch_pool_t" where
  "pool_item_store p slot_id item =
     p\<lparr> items := (items p)[unat (sfetch_slot_index slot_id) := item] \<rparr>"

section \<open>The I/O provider and the request handler of the worker thread\<close>

text \<open>
  The platform wrappers \<^verbatim>\<open>_sfetch_file_open\<close>, \<^verbatim>\<open>_sfetch_file_size\<close> and
  \<^verbatim>\<open>_sfetch_file_read\<close> call into the C library; what the file system answers is a
  parameter of the model.  A file handle is an address, \<open>0\<close> is the invalid handle.
\<close>

record io_provider =
  file_open :: "string \<Rightarrow> nat"
  file_size :: "nat \<Rightarrow> u64"
  file_read :: "nat \<Rightarrow> u64 \<Rightarrow> u64 \<Rightarrow> bool"

definition sfetch_file_handle_valid :: "nat \<Rightarrow> bool" where
  "sfetch_file_handle_valid h = (h \<noteq> SFETCH_INVALID_FILE_HANDLE)"

text \<open>The \<^verbatim>\<open>if (state == _SFETCH_STATE_OPENING)\<close> block of \<^verbatim>\<open>_sfetch_request_handler\<close>.\<close>

definition request_handler_opening ::
  "io_provider \<Rightarrow> sfetch_item_t \<Rightarrow> sfetch_state_t \<Rightarrow> sfetch_item_thread_t \<Rightarrow>
     (sfetch_state_t \<times> sfetch_item_thread_t) option" where
  "request_handler_opening io item st th =
     (if st = OPENING then do {
        SOKOL_ASSERT (\<not> sfetch_file_handle_valid (t_file_handle th));
        SOKOL_ASSERT (path item \<noteq> []);
        SOKOL_ASSERT (t_content_size th = 0);
        SOKOL_ASSERT (t_content_offset th = 0);
        SOKOL_ASSERT (t_fetched_size th = 0);
        let th = th\<lparr> t_file_handle := file_open io (path item) \<rparr>;
        if sfetch_file_handle_valid (t_file_handle th) then do {
          let th = th\<lparr> t_content_size := file_size io (t_file_handle th) \<rparr>;
          Some (if ptr (buffer item) \<noteq> 0 then FETCHING else st, th)
        }
        else Some (st, th\<lparr> t_failed := True, t_finished := True \<rparr>)
      }
      else Some (st, th))"

text \<open>The \<^verbatim>\<open>if (state == _SFETCH_STATE_FETCHING)\<close> block of \<^verbatim>\<open>_sfetch_request_handler\<close>.\<close>

definition request_handler_fetching ::
  "io_provider \<Rightarrow> sfetch_item_t \<Rightarrow> sfetch_state_t \<Rightarrow> sfetch_item_thread_t \<Rightarrow>
     sfetch_item_thread_t option" where
  "request_handler_fetching io item st th =
     (if st = FETCHING then do {
        SOKOL_ASSERT (sfetch_file_handle_valid (t_file_handle th));
        SOKOL_ASSERT (t_content_size th > t_content_offset th);
        let th =
          (if ptr (buffer item) = 0 \<or> bsize (buffer item) = 0 then th\<lparr> t_failed := True \<rparr>
           else
             let bytes_to_read = t_content_size th - t_content_offset th;
                 bytes_to_read = (if bytes_to_read > bsize (buffer item)
                                  then bsize (buffer item) else bytes_to_read);
                 offset = t_content_offset th
             in if file_read io (t_file_handle th) offset bytes_to_read
                then th\<lparr> t_fetched_size := bytes_to_read,
                         t_content_offset := t_content_offset th + bytes_to_read \<rparr>
                else th\<lparr> t_failed := True \<rparr>);
        Some (if t_failed th \<or> t_content_offset th \<ge> t_content_size th
              then th\<lparr> t_file_handle := 0, t_finished := True \<rparr>
              else th)
      }
      else Some th)"

definition sfetch_request_handler :: "io_provider \<Rightarrow> sfetch_t \<Rightarrow> u32 \<Rightarrow> sfetch_t option" where
  "sfetch_request_handler io ctx slot_id = do {
     r \<leftarrow> sfetch_pool_item_lookup (pool ctx) slot_id;
     case r of
       None \<Rightarrow> Some ctx
     | Some item \<Rightarrow> do {
         let st = state item;
         SOKOL_ASSERT (st = OPENING \<or> st = FETCHING \<or> st = PAUSED \<or> st = FAILED);
         if t_failed (thread item) then Some ctx
         else do {
           (st, th) \<leftarrow> request_handler_opening io item st (thread item);
           th \<leftarrow> request_handler_fetching io item st th;
           Some (ctx\<lparr> pool := pool_item_store (pool ctx) slot_id (item\<lparr> thread := th \<rparr>) \<rparr>)
         }
       }
   }"

text \<open>
  The loop shared by \<^verbatim>\<open>_sfetch_thread_enqueue_incoming\<close> and
  \<^verbatim>\<open>_sfetch_thread_dequeue_outgoing\<close>, run under the queue's mutex:
  \<^verbatim>\<open>while (!full(dst) && !empty(src)) enqueue(dst, dequeue(src))\<close>.
\<close>

partial_function (option) ring_transfer ::
  "sfetch_ring_t \<Rightarrow> sfetch_ring_t \<Rightarrow> (sfetch_ring_t \<times> sfetch_ring_t) option" where
  "ring_transfer dst src = do {
     full \<leftarrow> sfetch_ring_full dst;
     if full then Some (dst, src)
     else do {
       empty \<leftarrow> sfetch_ring_empty src;
       if empty then Some (dst, src)
       else do {
         (slot_id, src') \<leftarrow> sfetch_ring_dequeue src;
         dst' \<leftarrow> sfetch_ring_enqueue dst slot_id;
         ring_transfer dst' src'
       }
     }
   }"

declare ring_transfer.simps [code]

definition sfetch_thread_enqueue_incoming ::
  "sfetch_ring_t \<Rightarrow> sfetch_ring_t \<Rightarrow> (sfetch_ring_t \<times> sfetch_ring_t) option" where
  "sfetch_thread_enqueue_incoming incoming src = do {
     SOKOL_ASSERT (buf incoming \<noteq> []);
     SOKOL_ASSERT (buf src \<noteq> []);
     empty \<leftarrow> sfetch_ring_empty src;
     if \<not> empty then ring_transfer incoming src else Some (incoming, src)
   }"

definition sfetch_thread_enqueue_outgoing :: "sfetch_ring_t \<Rightarrow> u32 \<Rightarrow> sfetch_ring_t option" where
  "sfetch_thread_enqueue_outgoing outgoing item = do {
     SOKOL_ASSERT (buf outgoing \<noteq> []);
     SOKOL_ASSERT (item \<noteq> 0);
     full \<leftarrow> sfetch_ring_full outgoing;
     if \<not> full then sfetch_ring_enqueue outgoing item else Some outgoing
   }"

definition sfetch_thread_dequeue_outgoing ::
  "sfetch_ring_t \<Rightarrow> sfetch_ring_t \<Rightarrow> (sfetch_ring_t \<times> sfetch_ring_t) option" where
  "sfetch_thread_dequeue_outgoing outgoing dst = do {
     SOKOL_ASSERT (buf outgoing \<noteq> []);
     SOKOL_ASSERT (buf dst \<noteq> []);
     (dst', outgoing') \<leftarrow> ring_transfer dst outgoing;
     Some (outgoing', dst')
   }"

text \<open>
  One turn of the loop of \<^verbatim>\<open>_sfetch_channel_thread_func\<close> on channel \<open>c\<close>: take one id
  from the inbox, handle it, put it into the outbox.  With an empty inbox the worker
  waits on the condition variable, which is a step that changes nothing.
\<close>

definition sfetch_channel_thread_func :: "io_provider \<Rightarrow> nat \<Rightarrow> sfetch_t \<Rightarrow> sfetch_t option" where
  "sfetch_channel_thread_func io c ctx = do {
     ch \<leftarrow> array_get (chn ctx) c;
     SOKOL_ASSERT (buf (thread_incoming ch) \<noteq> []);
     empty \<leftarrow> sfetch_ring_empty (thread_incoming ch);
     if empty then Some ctx
     else do {
       (slot_id, inc) \<leftarrow> sfetch_ring_dequeue (thread_incoming ch);
       SOKOL_ASSERT (slot_id \<noteq> 0);
       ctx \<leftarrow> sfetch_request_handler io ctx slot_id;
       full \<leftarrow> sfetch_ring_full (thread_outgoing ch);
       SOKOL_ASSERT (\<not> full);
       out \<leftarrow> sfetch_thread_enqueue_outgoing (thread_outgoing ch) slot_id;
       Some (ctx\<lparr> chn := (chn ctx)[c := ch\<lparr> thread_incoming := inc, thread_outgoing := out \<rparr>] \<rparr>)
     }
   }"

section \<open>The channel\<close>

text \<open>The loop of \<^verbatim>\<open>_sfetch_channel_init\<close> that fills the free-lanes queue.\<close>

fun channel_init_lanes :: "nat \<Rightarrow> nat \<Rightarrow> sfetch_ring_t \<Rightarrow> sfetch_ring_t option" where
  "channel_init_lanes 0 l rb = Some rb"
| "channel_init_lanes (Suc k) l rb = do {
     rb \<leftarrow> sfetch_ring_enqueue rb (of_nat l);
     channel_init_lanes k (Suc l) rb
   }"

definition sfetch_channel_init :: "nat \<Rightarrow> nat \<Rightarrow> sfetch_channel_t option" where
  "sfetch_channel_init num_items lanes = do {
     SOKOL_ASSERT (num_items > 0);
     fl \<leftarrow> sfetch_ring_init lanes;
     fl \<leftarrow> channel_init_lanes lanes 0 fl;
     sent \<leftarrow> sfetch_ring_init num_items;
     inc \<leftarrow> sfetch_ring_init lanes;
     out \<leftarrow> sfetch_ring_init lanes;
     tinc \<leftarrow> sfetch_ring_init lanes;
     tout \<leftarrow> sfetch_ring_init lanes;
     Some \<lparr> free_lanes = fl, user_sent = sent, user_incoming = inc, user_outgoing = out,
            thread_incoming = tinc, thread_outgoing = tout, chn_valid = True \<rparr>
   }"

definition sfetch_channel_send :: "sfetch_channel_t \<Rightarrow> u32 \<Rightarrow> (bool \<times> sfetch_channel_t) option" where
  "sfetch_channel_send ch slot_id = do {
     SOKOL_ASSERT (chn_valid ch);
     full \<leftarrow> sfetch_ring_full (user_sent ch);
     if \<not> full then do {
       sent \<leftarrow> sfetch_ring_enqueue (user_sent ch) slot_id;
       Some (True, ch\<lparr> user_sent := sent \<rparr>)
     }
     else Some (False, ch)
   }"

subsection \<open>Channel dowork: admission from the sent queue\<close>

text \<open>
  The body of the first loop of \<^verbatim>\<open>_sfetch_channel_dowork\<close>, run \<open>num_move\<close> times.
  Binding the looked-up pointer fails on the null pointer, as \<^verbatim>\<open>SOKOL_ASSERT(item)\<close> does.
\<close>

fun dowork_admit_loop ::
  "nat \<Rightarrow> sfetch_channel_t \<Rightarrow> sfetch_pool_t \<Rightarrow> (sfetch_channel_t \<times> sfetch_pool_t) option" where
  "dowork_admit_loop 0 ch p = Some (ch, p)"
| "dowork_admit_loop (Suc k) ch p = do {
     (slot_id, sent) \<leftarrow> sfetch_ring_dequeue (user_sent ch);
     r \<leftarrow> sfetch_pool_item_lookup p slot_id;
     item \<leftarrow> r;
     (l, fl) \<leftarrow> sfetch_ring_dequeue (free_lanes ch);
     let p = pool_item_store p slot_id (item\<lparr> lane := l \<rparr>);
     inc \<leftarrow> sfetch_ring_enqueue (user_incoming ch) slot_id;
     dowork_admit_loop k (ch\<lparr> user_sent := sent, free_lanes := fl, user_incoming := inc \<rparr>) p
   }"

definition dowork_admit ::
  "sfetch_channel_t \<Rightarrow> sfetch_pool_t \<Rightarrow> (sfetch_channel_t \<times> sfetch_pool_t) option" where
  "dowork_admit ch p = do {
     num_sent \<leftarrow> sfetch_ring_count (user_sent ch);
     avail_lanes \<leftarrow> sfetch_ring_count (free_lanes ch);
     let num_move = (if num_sent < avail_lanes then num_sent else avail_lanes);
     dowork_admit_loop num_move ch p
   }"

subsection \<open>Channel dowork: preparing the incoming items\<close>

text \<open>The body of the second loop, on one item: the three flags, then the switch.\<close>

definition dowork_prepare_item :: "sfetch_item_t \<Rightarrow> sfetch_item_t option" where
  "dowork_prepare_item item = do {
     SOKOL_ASSERT (state item \<noteq> INITIAL);
     SOKOL_ASSERT (state item \<noteq> OPENING);
     SOKOL_ASSERT (state item \<noteq> FETCHING);
     let item = (if u_pause (user item)
                 then item\<lparr> state := PAUSED, user := (user item)\<lparr> u_pause := False \<rparr> \<rparr>
                 else item);
     let item = (if u_cont (user item)
                 then (if state item = PAUSED then item\<lparr> state := FETCHED \<rparr> else item)
                        \<lparr> user := (user item)\<lparr> u_cont := False \<rparr> \<rparr>
                 else item);
     let item = (if u_cancel (user item)
                 then item\<lparr> state := FAILED, user := (user item)\<lparr> u_finished := True \<rparr> \<rparr>
                 else item);
     Some (case state item of
             ALLOCATED \<Rightarrow> item\<lparr> state := OPENING \<rparr>
           | OPENED \<Rightarrow> item\<lparr> state := FETCHING \<rparr>
           | FETCHED \<Rightarrow> item\<lparr> state := FETCHING \<rparr>
           | _ \<Rightarrow> item)
   }"

fun dowork_prepare_loop ::
  "nat \<Rightarrow> nat \<Rightarrow> sfetch_channel_t \<Rightarrow> sfetch_pool_t \<Rightarrow> sfetch_pool_t option" where
  "dowork_prepare_loop 0 i ch p = Some p"
| "dowork_prepare_loop (Suc k) i ch p = do {
     slot_id \<leftarrow> sfetch_ring_peek (user_incoming ch) i;
     r \<leftarrow> sfetch_pool_item_lookup p slot_id;
     item \<leftarrow> r;
     item \<leftarrow> dowork_prepare_item item;
     dowork_prepare_loop k (Suc i) ch (pool_item_store p slot_id item)
   }"

definition dowork_prepare :: "sfetch_channel_t \<Rightarrow> sfetch_pool_t \<Rightarrow> sfetch_pool_t option" where
  "dowork_prepare ch p = do {
     num_incoming \<leftarrow> sfetch_ring_count (user_incoming ch);
     dowork_prepare_loop num_incoming 0 ch p
   }"

subsection \<open>Channel dowork: hand-over to and from the worker thread\<close>

definition dowork_handoff :: "sfetch_channel_t \<Rightarrow> sfetch_channel_t option" where
  "dowork_handoff ch = do {
     (tinc, inc) \<leftarrow> sfetch_thread_enqueue_incoming (thread_incoming ch) (user_incoming ch);
     (tout, out) \<leftarrow> sfetch_thread_dequeue_outgoing (thread_outgoing ch) (user_outgoing ch);
     Some (ch\<lparr> thread_incoming := tinc, user_incoming := inc,
               thread_outgoing := tout, user_outgoing := out \<rparr>)
   }"

section \<open>Public functions called by user code\<close>

definition sfetch_validate_request :: "sfetch_t \<Rightarrow> sfetch_request_t \<Rightarrow> bool" where
  "sfetch_validate_request ctx req =
     (if unat (req_channel req) \<ge> num_channels (desc ctx) then False
      else case req_path req of
        None \<Rightarrow> False
      | Some s \<Rightarrow>
          if length s \<ge> SFETCH_MAX_PATH - 1 then False
          else if req_callback req = 0 then False
          else if req_user_data_ptr req \<noteq> None \<and> req_user_data_size req = 0 then False
          else if req_user_data_ptr req = None \<and> req_user_data_size req > 0 then False
          else if unat (req_user_data_size req) > SFETCH_MAX_USERDATA_UINT64 * 8 then False
          else True)"

definition sfetch_handle_valid :: "sfetch_t \<Rightarrow> u32 \<Rightarrow> bool option" where
  "sfetch_handle_valid ctx h = do {
     SOKOL_ASSERT (valid ctx);
     if h = 0 then Some False
     else do {
       r \<leftarrow> sfetch_pool_item_lookup (pool ctx) h;
       Some (r \<noteq> None)
     }
   }"

definition sfetch_send :: "sfetch_t \<Rightarrow> sfetch_request_t \<Rightarrow> (u32 \<times> sfetch_t) option" where
  "sfetch_send ctx request = do {
     SOKOL_ASSERT (is_setup ctx);
     let invalid_handle = 0;
     if \<not> valid ctx then Some (invalid_handle, ctx)
     else if \<not> sfetch_validate_request ctx request then Some (invalid_handle, ctx)
     else do {
       SOKOL_ASSERT (unat (req_channel request) < num_channels (desc ctx));
       (slot_id, p) \<leftarrow> sfetch_pool_item_alloc (pool ctx) request;
       let ctx = ctx\<lparr> pool := p \<rparr>;
       if slot_id = 0 then Some (invalid_handle, ctx)
       else do {
         ch \<leftarrow> array_get (chn ctx) (unat (req_channel request));
         (ok, ch) \<leftarrow> sfetch_channel_send ch slot_id;
         let ctx = ctx\<lparr> chn := (chn ctx)[unat (req_channel request) := ch] \<rparr>;
         if \<not> ok then do {
           p \<leftarrow> sfetch_pool_item_free (pool ctx) slot_id;
           Some (invalid_handle, ctx\<lparr> pool := p \<rparr>)
         }
         else Some (slot_id, ctx)
       }
     }
   }"

definition sfetch_bind_buffer :: "sfetch_t \<Rightarrow> u32 \<Rightarrow> nat \<Rightarrow> u64 \<Rightarrow> sfetch_t option" where
  "sfetch_bind_buffer ctx h buffer_ptr buffer_size = do {
     SOKOL_ASSERT (valid ctx);
     SOKOL_ASSERT (in_callback ctx);
     r \<leftarrow> sfetch_pool_item_lookup (pool ctx) h;
     case r of
       Some item \<Rightarrow> do {
         SOKOL_ASSERT (ptr (buffer item) = 0 \<and> bsize (buffer item) = 0);
         Some (ctx\<lparr> pool := pool_item_store (pool ctx) h
                 (item\<lparr> buffer := \<lparr> ptr = buffer_ptr, bsize = buffer_size \<rparr> \<rparr>) \<rparr>)
       }
     | None \<Rightarrow> Some ctx
   }"

definition sfetch_unbind_buffer :: "sfetch_t \<Rightarrow> u32 \<Rightarrow> (nat \<times> sfetch_t) option" where
  "sfetch_unbind_buffer ctx h = do {
     SOKOL_ASSERT (valid ctx);
     SOKOL_ASSERT (in_callback ctx);
     r \<leftarrow> sfetch_pool_item_lookup (pool ctx) h;
     case r of
       Some item \<Rightarrow> do {
         let prev_buf_ptr = ptr (buffer item);
         Some (prev_buf_ptr,
               ctx\<lparr> pool := pool_item_store (pool ctx) h
                 (item\<lparr> buffer := \<lparr> ptr = 0, bsize = 0 \<rparr> \<rparr>) \<rparr>)
       }
     | None \<Rightarrow> Some (0, ctx)
   }"

definition sfetch_pause :: "sfetch_t \<Rightarrow> u32 \<Rightarrow> sfetch_t option" where
  "sfetch_pause ctx h = do {
     SOKOL_ASSERT (valid ctx);
     r \<leftarrow> sfetch_pool_item_lookup (pool ctx) h;
     case r of
       Some item \<Rightarrow>
         Some (ctx\<lparr> pool := pool_item_store (pool ctx) h
                 (item\<lparr> user := (user item)\<lparr> u_pause := True, u_cont := False \<rparr> \<rparr>) \<rparr>)
     | None \<Rightarrow> Some ctx
   }"

definition sfetch_continue :: "sfetch_t \<Rightarrow> u32 \<Rightarrow> sfetch_t option" where
  "sfetch_continue ctx h = do {
     SOKOL_ASSERT (valid ctx);
     r \<leftarrow> sfetch_pool_item_lookup (pool ctx) h;
     case r of
       Some item \<Rightarrow>
         Some (ctx\<lparr> pool := pool_item_store (pool ctx) h
                 (item\<lparr> user := (user item)\<lparr> u_cont := True, u_pause := False \<rparr> \<rparr>) \<rparr>)
     | None \<Rightarrow> Some ctx
   }"

definition sfetch_cancel :: "sfetch_t \<Rightarrow> u32 \<Rightarrow> sfetch_t option" where
  "sfetch_cancel ctx h = do {
     SOKOL_ASSERT (valid ctx);
     r \<leftarrow> sfetch_pool_item_lookup (pool ctx) h;
     case r of
       Some item \<Rightarrow>
         Some (ctx\<lparr> pool := pool_item_store (pool ctx) h
                 (item\<lparr> user := (user item)\<lparr> u_cont := False, u_pause := False,
                                              u_cancel := True \<rparr> \<rparr>) \<rparr>)
     | None \<Rightarrow> Some ctx
   }"

section \<open>User code\<close>

text \<open>
  A response callback is user code: it sees the response snapshot and may call the public
  functions.  \<open>user_code\<close> gives, for a function pointer, the responses delivered so far
  and the new snapshot, the calls which that callback makes, in order.
\<close>

datatype api_call =
    Call_send sfetch_request_t
  | Call_bind_buffer u32 nat u64
  | Call_unbind_buffer u32
  | Call_pause u32
  | Call_continue u32
  | Call_cancel u32

type_synonym user_code = "nat \<Rightarrow> sfetch_response_t list \<Rightarrow> sfetch_response_t \<Rightarrow> api_call list"

fun exec_api_call :: "api_call \<Rightarrow> sfetch_t \<Rightarrow> sfetch_t option" where
  "exec_api_call (Call_send req) ctx = map_option snd (sfetch_send ctx req)"
| "exec_api_call (Call_bind_buffer h p n) ctx = sfetch_bind_buffer ctx h p n"
| "exec_api_call (Call_unbind_buffer h) ctx = map_option snd (sfetch_unbind_buffer ctx h)"
| "exec_api_call (Call_pause h) ctx = sfetch_pause ctx h"
| "exec_api_call (Call_continue h) ctx = sfetch_continue ctx h"
| "exec_api_call (Call_cancel h) ctx = sfetch_cancel ctx h"

fun exec_api_calls :: "api_call list \<Rightarrow> sfetch_t \<Rightarrow> sfetch_t option" where
  "exec_api_calls [] ctx = Some ctx"
| "exec_api_calls (a # as) ctx = do {
     ctx \<leftarrow> exec_api_call a ctx;
     exec_api_calls as ctx
   }"

text \<open>The engine together with the response snapshots delivered to callbacks so far.\<close>

record sfetch_run =
  ctx :: sfetch_t
  delivered :: "sfetch_response_t list"

section \<open>Channel dowork: draining the outgoing queue\<close>

text \<open>Copy of the worker's results to the user side, and the state transition.\<close>

definition dowork_transfer_output :: "sfetch_item_t \<Rightarrow> sfetch_item_t" where
  "dowork_transfer_output item =
     (let item = item\<lparr> user := (user item)\<lparr>
                   u_content_size := t_content_size (thread item),
                   u_content_offset := t_content_offset (thread item),
                   u_fetched_size := t_fetched_size (thread item) \<rparr> \<rparr>;
          item = (if t_finished (thread item)
                  then item\<lparr> user := (user item)\<lparr> u_finished := True \<rparr> \<rparr> else item)
      in if t_failed (thread item) then item\<lparr> state := FAILED \<rparr>
         else (case state item of
                 OPENING \<Rightarrow>
                   if u_content_offset (user item) > 0 then item\<lparr> state := FETCHED \<rparr>
                   else item\<lparr> state := OPENED \<rparr>
               | FETCHING \<Rightarrow> item\<lparr> state := FETCHED \<rparr>
               | _ \<Rightarrow> item))"

text \<open>The response snapshot built for the callback.\<close>

definition dowork_response :: "u32 \<Rightarrow> sfetch_item_t \<Rightarrow> sfetch_response_t" where
  "dowork_response slot_id item =
     \<lparr> r_handle = slot_id,
       r_opened = (state item = OPENED),
       r_fetched = (state item = FETCHED),
       r_paused = (state item = PAUSED),
       r_finished = u_finished (user item),
       r_failed = (state item = FAILED),
       r_cancelled = u_cancel (user item),
       r_channel = channel item,
       r_lane = lane item,
       r_path = path item,
       r_user_data = u_user_data (user item),
       r_content_size = u_content_size (user item),
       r_content_offset = u_content_offset (user item) - u_fetched_size (user item),
       r_fetched_size = u_fetched_size (user item),
       r_buffer_ptr = ptr (buffer item),
       r_buffer_size = bsize (buffer item) \<rparr>"

text \<open>
  The body of the last loop of \<^verbatim>\<open>_sfetch_channel_dowork\<close> for the id just taken from
  the outgoing queue of channel \<open>c\<close>.  After the callback the item is read again through
  the same pointer, since the callback may have written to it.
\<close>

definition dowork_drain_item :: "user_code \<Rightarrow> nat \<Rightarrow> u32 \<Rightarrow> sfetch_run \<Rightarrow> sfetch_run option" where
  "dowork_drain_item u c slot_id w = do {
     SOKOL_ASSERT (slot_id \<noteq> 0);
     r \<leftarrow> sfetch_pool_item_lookup (pool (ctx w)) slot_id;
     item \<leftarrow> r;
     SOKOL_ASSERT (callback item \<noteq> 0);
     SOKOL_ASSERT (state item \<noteq> INITIAL);
     SOKOL_ASSERT (state item \<noteq> ALLOCATED);
     SOKOL_ASSERT (state item \<noteq> OPENED);
     SOKOL_ASSERT (state item \<noteq> FETCHED);
     let item = dowork_transfer_output item;
     let cx = (ctx w)\<lparr> pool := pool_item_store (pool (ctx w)) slot_id item \<rparr>;
     let response = dowork_response slot_id item;
     cx \<leftarrow> exec_api_calls (u (callback item) (delivered w) response) cx;
     let log = delivered w @ [response];
     item \<leftarrow> array_get (items (pool cx)) (unat (sfetch_slot_index slot_id));
     ch \<leftarrow> array_get (chn cx) c;
     if u_finished (user item) then do {
       fl \<leftarrow> sfetch_ring_enqueue (free_lanes ch) (lane item);
       p \<leftarrow> sfetch_pool_item_free (pool cx) slot_id;
       Some \<lparr> ctx = cx\<lparr> chn := (chn cx)[c := ch\<lparr> free_lanes := fl \<rparr>], pool := p \<rparr>,
              delivered = log \<rparr>
     }
     else do {
       inc \<leftarrow> sfetch_ring_enqueue (user_incoming ch) slot_id;
       Some \<lparr> ctx = cx\<lparr> chn := (chn cx)[c := ch\<lparr> user_incoming := inc \<rparr>] \<rparr>,
              delivered = log \<rparr>
     }
   }"

partial_function (option) dowork_drain :: "user_code \<Rightarrow> nat \<Rightarrow> sfetch_run \<Rightarrow> sfetch_run option" where
  "dowork_drain u c w = do {
     ch \<leftarrow> array_get (chn (ctx w)) c;
     empty \<leftarrow> sfetch_ring_empty (user_outgoing ch);
     if empty then Some w
     else do {
       (slot_id, out) \<leftarrow> sfetch_ring_dequeue (user_outgoing ch);
       let w = w\<lparr> ctx := (ctx w)\<lparr> chn := (chn (ctx w))[c := ch\<lparr> user_outgoing := out \<rparr>] \<rparr> \<rparr>;
       w \<leftarrow> dowork_drain_item u c slot_id w;
       dowork_drain u c w
     }
   }"

declare dowork_drain.simps [code]

definition sfetch_channel_dowork :: "user_code \<Rightarrow> nat \<Rightarrow> sfetch_run \<Rightarrow> sfetch_run option" where
  "sfetch_channel_dowork u c w = do {
     ch \<leftarrow> array_get (chn (ctx w)) c;
     (ch, p) \<leftarrow> dowork_admit ch (pool (ctx w));
     p \<leftarrow> dowork_prepare ch p;
     ch \<leftarrow> dowork_handoff ch;
     dowork_drain u c (w\<lparr> ctx := (ctx w)\<lparr> pool := p, chn := (chn (ctx w))[c := ch] \<rparr> \<rparr>)
   }"

section \<open>Setup and dowork\<close>

fun dowork_channels :: "user_code \<Rightarrow> nat \<Rightarrow> nat \<Rightarrow> sfetch_run \<Rightarrow> sfetch_run option" where
  "dowork_channels u 0 c w = Some w"
| "dowork_channels u (Suc k) c w = do {
     w \<leftarrow> sfetch_channel_dowork u c w;
     dowork_channels u k (Suc c) w
   }"

definition sfetch_dowork :: "user_code \<Rightarrow> sfetch_run \<Rightarrow> sfetch_run option" where
  "sfetch_dowork u w = do {
     SOKOL_ASSERT (is_setup (ctx w));
     if \<not> valid (ctx w) then Some w
     else do {
       let w = w\<lparr> ctx := (ctx w)\<lparr> in_callback := True \<rparr> \<rparr>;
       w \<leftarrow> dowork_channels u (num_channels (desc (ctx w))) 0 w;
       w \<leftarrow> dowork_channels u (num_channels (desc (ctx w))) 0 w;
       Some (w\<lparr> ctx := (ctx w)\<lparr> in_callback := False \<rparr> \<rparr>)
     }
   }"

definition zero_ring :: sfetch_ring_t where
  "zero_ring = \<lparr> head = 0, tail = 0, num = 0, buf = [] \<rparr>"

definition zero_channel :: sfetch_channel_t where
  "zero_channel = \<lparr> free_lanes = zero_ring, user_sent = zero_ring, user_incoming = zero_ring,
     user_outgoing = zero_ring, thread_incoming = zero_ring, thread_outgoing = zero_ring,
     chn_valid = False \<rparr>"

fun setup_channels ::
  "nat \<Rightarrow> nat \<Rightarrow> sfetch_desc_t \<Rightarrow> sfetch_channel_t list \<Rightarrow> sfetch_channel_t list option" where
  "setup_channels 0 i d chs = Some chs"
| "setup_channels (Suc k) i d chs = do {
     ch \<leftarrow> sfetch_channel_init (max_requests d) (num_lanes d);
     chs \<leftarrow> array_set chs i ch;
     setup_channels k (Suc i) d chs
   }"

definition sfetch_setup :: "sfetch_desc_t \<Rightarrow> sfetch_t option" where
  "sfetch_setup d = do {
     let d = d\<lparr> max_requests := sfetch_def (max_requests d) 128,
                num_channels := sfetch_def (num_channels d) 1,
                num_lanes := sfetch_def (num_lanes d) 1 \<rparr>;
     let d = (if num_channels d > SFETCH_MAX_CHANNELS
              then d\<lparr> num_channels := SFETCH_MAX_CHANNELS \<rparr> else d);
     p \<leftarrow> sfetch_pool_init (max_requests d);
     chs \<leftarrow> setup_channels (num_channels d) 0 d (replicate SFETCH_MAX_CHANNELS zero_channel);
     Some \<lparr> is_setup = True, valid = True, in_callback = False, desc = d, pool = p, chn = chs \<rparr>
   }"

section \<open>Runs of the engine\<close>

text \<open>
  The user thread calls the public functions between two calls of \<^verbatim>\<open>sfetch_dowork\<close>;
  the worker of a channel runs at any time.  A run is a sequence of such steps; the
  hand-over queues are exchanged under their locks, so a worker step is atomic with
  respect to the steps of the user thread.
\<close>

datatype event =
    Ev_call api_call
  | Ev_dowork
  | Ev_worker nat

fun exec_event :: "io_provider \<Rightarrow> user_code \<Rightarrow> event \<Rightarrow> sfetch_run \<Rightarrow> sfetch_run option" where
  "exec_event io u (Ev_call a) w = do {
     cx \<leftarrow> exec_api_call a (ctx w);
     Some (w\<lparr> ctx := cx \<rparr>)
   }"
| "exec_event io u Ev_dowork w = sfetch_dowork u w"
| "exec_event io u (Ev_worker c) w = do {
     cx \<leftarrow> sfetch_channel_thread_func io c (ctx w);
     Some (w\<lparr> ctx := cx \<rparr>)
   }"

fun exec_events :: "io_provider \<Rightarrow> user_code \<Rightarrow> event list \<Rightarrow> sfetch_run \<Rightarrow> sfetch_run option" where
  "exec_events io u [] w = Some w"
| "exec_events io u (e # es) w = do {
     w \<leftarrow> exec_event io u e w;
     exec_events io u es w
   }"

section \<open>The caller-side flag handling in words\<close>

text \<open>
  The three flag steps and the final dispatch on the state, each as a function on the
  state alone; the prepare step of \<^verbatim>\<open>_sfetch_channel_dowork\<close> is compared with their
  composition.
\<close>

definition flag_pause :: "bool \<Rightarrow> sfetch_state_t \<Rightarrow> sfetch_state_t" where
  "flag_pause f s = (if f then PAUSED else s)"

definition flag_continue :: "bool \<Rightarrow> sfetch_state_t \<Rightarrow> sfetch_state_t" where
  "flag_continue f s = (if f \<and> s = PAUSED then FETCHED else s)"

definition flag_cancel :: "bool \<Rightarrow> sfetch_state_t \<Rightarrow> sfetch_state_t" where
  "flag_cancel f s = (if f then FAILED else s)"

fun dispatch_state :: "sfetch_state_t \<Rightarrow> sfetch_state_t" where
  "dispatch_state ALLOCATED = OPENING"
| "dispatch_state OPENED = FETCHING"
| "dispatch_state FETCHED = FETCHING"
| "dispatch_state PAUSED = PAUSED"
| "dispatch_state FAILED = FAILED"
| "dispatch_state s = s"

section \<open>Clients of the pool\<close>

text \<open>
  What the engine does to the pool between setup and shutdown: it allocates items, frees
  them, and writes to fields of live items through the pointer that the lookup returned
  (never to the handle).  \<open>pool_run i\<close> runs a list of such operations and counts how
  often slot \<open>i\<close> was allocated.
\<close>

datatype pool_op =
    Op_alloc sfetch_request_t
  | Op_free u32
  | Op_modify u32 "sfetch_item_t \<Rightarrow> sfetch_item_t"

fun pool_step :: "pool_op \<Rightarrow> sfetch_pool_t \<Rightarrow> (u32 \<times> sfetch_pool_t) option" where
  "pool_step (Op_alloc req) p = sfetch_pool_item_alloc p req"
| "pool_step (Op_free slot_id) p = do {
     p \<leftarrow> sfetch_pool_item_free p slot_id;
     Some (0, p)
   }"
| "pool_step (Op_modify slot_id f) p = do {
     r \<leftarrow> sfetch_pool_item_lookup p slot_id;
     case r of
       None \<Rightarrow> Some (0, p)
     | Some item \<Rightarrow> Some (0, pool_item_store p slot_id ((f item)\<lparr> handle := handle item \<rparr>))
   }"

fun pool_run :: "nat \<Rightarrow> pool_op list \<Rightarrow> sfetch_pool_t \<Rightarrow> (nat \<times> sfetch_pool_t) option" where
  "pool_run i [] p = Some (0, p)"
| "pool_run i (a # as) p = do {
     (slot_id, p) \<leftarrow> pool_step a p;
     (n, p) \<leftarrow> pool_run i as p;
     Some (if slot_id \<noteq> 0 \<and> unat (sfetch_slot_index slot_id) = i then Suc n else n, p)
   }"

text \<open>\<open>k\<close> times: allocate an item and free it again.\<close>

fun realloc_cycles :: "nat \<Rightarrow> sfetch_request_t \<Rightarrow> sfetch_pool_t \<Rightarrow> sfetch_pool_t option" where
  "realloc_cycles 0 req p = Some p"
| "realloc_cycles (Suc k) req p = do {
     (slot_id, p) \<leftarrow> sfetch_pool_item_alloc p req;
     p \<leftarrow> sfetch_pool_item_free p slot_id;
     realloc_cycles k req p
   }"

text \<open>
  Invariants of the pool: it is valid, the item array has \<open>pool_size\<close> elements and the
  free stack holds 16-bit indices; the handle stored in slot \<open>i\<close> is 0 or the id made from
  \<open>i\<close> and the slot's generation counter; and, \<open>n\<close> allocations of slot \<open>i\<close> after a handle
  of generation \<open>gh\<close> was freed, the slot is free or holds generation \<open>gh + n\<close>.
\<close>

definition pool_ok :: "sfetch_pool_t \<Rightarrow> bool" where
  "pool_ok p = (pool_valid p \<and> length (items p) = pool_size p \<and>
                list_all (\<lambda>s. unat s < 65536) (free_slots p))"

definition slot_inv :: "nat \<Rightarrow> sfetch_pool_t \<Rightarrow> bool" where
  "slot_inv i p = (handle (items p ! i) = 0 \<or>
                   handle (items p ! i) = sfetch_make_id (of_nat i) (gen_ctrs p ! i))"

definition stale_inv :: "nat \<Rightarrow> u32 \<Rightarrow> nat \<Rightarrow> sfetch_pool_t \<Rightarrow> bool" where
  "stale_inv i gh n p = (gen_ctrs p ! i = gh + of_nat n \<and>
     (handle (items p ! i) = 0 \<or>
      (0 < n \<and> handle (items p ! i) = sfetch_make_id (of_nat i) (gh + of_nat n))))"

section \<open>The contents of a ring\<close>

text \<open>
  The ids that a ring holds, oldest first: \<open>count\<close> elements of the backing array from
  \<open>tail\<close> on, wrapping around.  A ring made by \<^verbatim>\<open>_sfetch_ring_init\<close> and used through
  enqueue and dequeue keeps \<open>head\<close> and \<open>tail\<close> below \<open>num\<close>, the size of its array.
\<close>

definition ring_raw_count :: "sfetch_ring_t \<Rightarrow> nat" where
  "ring_raw_count rb = (if head rb \<ge> tail rb then head rb - tail rb
                        else (head rb + num rb) - tail rb)"

definition ring_contents :: "sfetch_ring_t \<Rightarrow> u32 list" where
  "ring_contents rb = map (\<lambda>k. buf rb ! ((tail rb + k) mod num rb)) [0 ..< ring_raw_count rb]"

definition ring_wf :: "sfetch_ring_t \<Rightarrow> bool" where
  "ring_wf rb = (head rb < num rb \<and> tail rb < num rb \<and> length (buf rb) = num rb)"

text \<open>An id is live in a pool when the lookup finds its item.\<close>

definition is_live :: "sfetch_pool_t \<Rightarrow> u32 \<Rightarrow> bool" where
  "is_live p slot_id = (case sfetch_pool_item_lookup p slot_id of
                          Some (Some item) \<Rightarrow> True | _ \<Rightarrow> False)"

section \<open>Invariants of the engine\<close>

text \<open>
  A channel that was set up has six well-formed rings; \<open>chn_ids\<close> counts the ids in its
  five queues of requests (all but the free lanes) and \<open>queued\<close> sums this over the
  channels.  The unused channels of the array stay zeroed.
\<close>

definition chn_wf :: "sfetch_channel_t \<Rightarrow> bool" where
  "chn_wf ch = (ring_wf (free_lanes ch) \<and> ring_wf (user_sent ch) \<and> ring_wf (user_incoming ch) \<and>
                ring_wf (user_outgoing ch) \<and> ring_wf (thread_incoming ch) \<and>
                ring_wf (thread_outgoing ch))"

definition chn_ids :: "sfetch_channel_t \<Rightarrow> nat" where
  "chn_ids ch = ring_raw_count (user_sent ch) + ring_raw_count (user_incoming ch) +
                ring_raw_count (user_outgoing ch) + ring_raw_count (thread_incoming ch) +
                ring_raw_count (thread_outgoing ch)"

definition queued :: "sfetch_channel_t list \<Rightarrow> nat" where
  "queued chs = sum_list (map chn_ids chs)"

definition chn_ready :: "nat \<Rightarrow> sfetch_channel_t \<Rightarrow> bool" where
  "chn_ready m ch = (ch = zero_channel \<or> (chn_wf ch \<and> chn_valid ch \<and> num (user_sent ch) = m + 1))"

text \<open>
  The free stack of the pool: one generation counter per slot, at most \<open>pool_size - 1\<close>
  entries, no index twice, and every index on the stack is that of a slot other than
  slot 0 which holds the zeroed item.
\<close>

definition pool_free_ok :: "sfetch_pool_t \<Rightarrow> bool" where
  "pool_free_ok p = (length (gen_ctrs p) = pool_size p \<and>
     free_top p \<le> length (free_slots p) \<and> free_top p \<le> pool_size p - 1 \<and>
     distinct (take (free_top p) (free_slots p)) \<and>
     list_all (\<lambda>s. 0 < s \<and> unat s < pool_size p \<and> items p ! unat s = zero_item)
       (take (free_top p) (free_slots p)))"

text \<open>
  \<open>engine_wf\<close> is the shape of an engine after setup: pool and free stack as above, the
  pool sized for \<open>max_requests\<close>, the first \<open>num_channels\<close> channels valid, every channel
  either zeroed or well-formed with a sent queue for \<open>max_requests\<close> ids.  \<open>qsum\<close> is the
  number of queued ids plus the number of free pool slots.
\<close>

definition engine_wf :: "sfetch_t \<Rightarrow> bool" where
  "engine_wf cx = (is_setup cx \<and> pool_ok (pool cx) \<and> pool_free_ok (pool cx) \<and>
                   pool_size (pool cx) = max_requests (desc cx) + 1 \<and>
                   list_all (chn_ready (max_requests (desc cx))) (chn cx) \<and>
                   num_channels (desc cx) \<le> length (chn cx) \<and>
                   list_all chn_valid (take (num_channels (desc cx)) (chn cx)))"

definition qsum :: "sfetch_t \<Rightarrow> nat" where
  "qsum cx = queued (chn cx) + free_top (pool cx)"

text \<open>
  What a step leaves as it was: \<open>pool_same\<close> for a step that only writes to live items,
  \<open>chn_kept\<close> for a step that moves ids between the queues of one channel, \<open>eng_kept\<close>
  for a step of the engine.
\<close>

definition pool_same :: "sfetch_pool_t \<Rightarrow> sfetch_pool_t \<Rightarrow> bool" where
  "pool_same p p' = (free_top p' = free_top p \<and> free_slots p' = free_slots p \<and>
                     gen_ctrs p' = gen_ctrs p \<and> pool_size p' = pool_size p \<and>
                     pool_valid p' = pool_valid p \<and> length (items p') = length (items p) \<and>
                     (\<forall>i < length (items p). handle (items p ! i) = 0 \<longrightarrow>
                                                items p' ! i = items p ! i))"




text \<open>
  The states of the engine in which the user thread can call a public function, in a run
  that starts with \<^verbatim>\<open>sfetch_setup\<close>.  Such a state comes with the request whose response
  callback is running, if any: its id was taken from the outgoing queue of its channel
  and is given back, or its item freed, after the callback.  The steps are those of
  \<^verbatim>\<open>sfetch_dowork\<close> in any order and on any channel, every public call at any time, and
  the worker at any time; every run of \<open>exec_events\<close> is made of such steps.
\<close>

inductive engine_state ::
  "io_provider \<Rightarrow> sfetch_desc_t \<Rightarrow> sfetch_t \<Rightarrow> (nat \<times> u32) option \<Rightarrow> bool"
  for io :: io_provider and d :: sfetch_desc_t where
  st_setup: "sfetch_setup d = Some cx \<Longrightarrow> engine_state io d cx None"
| st_call: "engine_state io d cx pd \<Longrightarrow> exec_api_call a cx = Some cx' \<Longrightarrow>
     engine_state io d cx' pd"
| st_worker: "engine_state io d cx pd \<Longrightarrow> sfetch_channel_thread_func io c cx = Some cx' \<Longrightarrow>
     engine_state io d cx' pd"
| st_flag: "engine_state io d cx pd \<Longrightarrow> engine_state io d (cx\<lparr> in_callback := b \<rparr>) pd"
| st_admit: "engine_state io d cx None \<Longrightarrow> array_get (chn cx) c = Some ch \<Longrightarrow>
     dowork_admit ch (pool cx) = Some (ch', p') \<Longrightarrow>
     engine_state io d (cx\<lparr> pool := p', chn := (chn cx)[c := ch'] \<rparr>) None"
| st_prepare: "engine_state io d cx None \<Longrightarrow> array_get (chn cx) c = Some ch \<Longrightarrow>
     dowork_prepare ch (pool cx) = Some p' \<Longrightarrow>
     engine_state io d (cx\<lparr> pool := p' \<rparr>) None"
| st_handoff: "engine_state io d cx None \<Longrightarrow> array_get (chn cx) c = Some ch \<Longrightarrow>
     dowork_handoff ch = Some ch' \<Longrightarrow>
     engine_state io d (cx\<lparr> chn := (chn cx)[c := ch'] \<rparr>) None"
| st_callback: "engine_state io d cx None \<Longrightarrow> array_get (chn cx) c = Some ch \<Longrightarrow>
     sfetch_ring_dequeue (user_outgoing ch) = Some (slot_id, out) \<Longrightarrow>
     sfetch_pool_item_lookup (pool cx) slot_id = Some (Some item) \<Longrightarrow>
     engine_state io d
       (cx\<lparr> chn := (chn cx)[c := ch\<lparr> user_outgoing := out \<rparr>],
            pool := pool_item_store (pool cx) slot_id (dowork_transfer_output item) \<rparr>)
       (Some (c, slot_id))"
| st_finished: "engine_state io d cx (Some (c, slot_id)) \<Longrightarrow>
     array_get (items (pool cx)) (unat (sfetch_slot_index slot_id)) = Some item \<Longrightarrow>
     array_get (chn cx) c = Some ch \<Longrightarrow>
     sfetch_ring_enqueue (free_lanes ch) (lane item) = Some fl \<Longrightarrow>
     sfetch_pool_item_free (pool cx) slot_id = Some p \<Longrightarrow>
     engine_state io d (cx\<lparr> chn := (chn cx)[c := ch\<lparr> free_lanes := fl \<rparr>], pool := p \<rparr>) None"
| st_again: "engine_state io d cx (Some (c, slot_id)) \<Longrightarrow>
     array_get (chn cx) c = Some ch \<Longrightarrow>
     sfetch_ring_enqueue (user_incoming ch) slot_id = Some inc \<Longrightarrow>
     engine_state io d (cx\<lparr> chn := (chn cx)[c := ch\<lparr> user_incoming := inc \<rparr>] \<rparr>) None"


section \<open>Example inputs\<close>

text \<open>
  An engine with one channel, one lane and room for two requests; a request for the file
  \<open>f\<close> on channel 0 with a given buffer; the engine right after that request was sent.
  The first request gets slot 1 with generation 1, which is the handle \<open>0x10001\<close>.
\<close>

definition demo_desc :: sfetch_desc_t where
  "demo_desc = \<lparr> max_requests = 2, num_channels = 1, num_lanes = 1 \<rparr>"

definition demo_request :: "nat \<Rightarrow> u64 \<Rightarrow> sfetch_request_t" where
  "demo_request p n = \<lparr> req_channel = 0, req_path = Some ''f'', req_callback = 1,
     req_buffer_ptr = p, req_buffer_size = n, req_user_data_ptr = None,
     req_user_data_size = 0 \<rparr>"

definition demo_sent :: "nat \<Rightarrow> u64 \<Rightarrow> sfetch_t" where
  "demo_sent p n =
     snd (the (sfetch_setup demo_desc \<bind> (\<lambda>cx. sfetch_send cx (demo_request p n))))"

definition demo_item :: sfetch_item_t where
  "demo_item = zero_item\<lparr> handle := 0x10001, state := ALLOCATED, lane := SFETCH_INVALID_LANE,
     callback := 1, path := ''f'' \<rparr>"

text \<open>
  A file system that holds the single file \<open>f\<close> of \<open>n\<close> bytes, and reads that succeed
  when they stay inside the file.  User code whose callbacks call nothing.
\<close>

definition demo_io :: "u64 \<Rightarrow> io_provider" where
  "demo_io n = \<lparr> file_open = (\<lambda>p. if p = ''f'' then 1 else 0), file_size = (\<lambda>h. n),
     file_read = (\<lambda>h off k. unat off + unat k \<le> unat n) \<rparr>"

definition no_calls :: user_code where
  "no_calls = (\<lambda>fp history response. [])"

definition demo_start :: "nat \<Rightarrow> u64 \<Rightarrow> sfetch_run" where
  "demo_start p n = \<lparr> ctx = demo_sent p n, delivered = [] \<rparr>"

definition demo_long_path :: "nat \<Rightarrow> sfetch_request_t" where
  "demo_long_path n = (demo_request 0 0)\<lparr> req_path := Some (replicate n (CHR ''a'')) \<rparr>"

text \<open>The six flags of a response: opened, fetched, paused, failed, finished, cancelled.\<close>

definition flags :: "sfetch_response_t \<Rightarrow> bool \<times> bool \<times> bool \<times> bool \<times> bool \<times> bool" where
  "flags r = (r_opened r, r_fetched r, r_paused r, r_failed r, r_finished r, r_cancelled r)"

text \<open>
  The engine after the first dowork on the example request with a buffer of 4 bytes at
  address 100 (the item waits in the worker's inbox in state OPENING), that item, and the
  run after the worker has handled it.
\<close>

definition demo_opening :: "u64 \<Rightarrow> sfetch_t" where
  "demo_opening n = ctx (the (exec_events (demo_io n) no_calls [Ev_dowork] (demo_start 100 4)))"

definition demo_opening_item :: "u64 \<Rightarrow> sfetch_item_t" where
  "demo_opening_item n = the (the (sfetch_pool_item_lookup (pool (demo_opening n)) 0x10001))"

definition demo_worked :: "u64 \<Rightarrow> sfetch_run" where
  "demo_worked n =
     the (exec_events (demo_io n) no_calls [Ev_dowork, Ev_worker 0] (demo_start 100 4))"

text \<open>
  The pool of an engine with room for one request: slot 1 has generation counter \<open>g\<close> and
  holds the item \<open>it\<close>, and \<open>k\<close> indices are on the free stack.
\<close>

definition one_slot_pool :: "u32 \<Rightarrow> sfetch_item_t \<Rightarrow> nat \<Rightarrow> sfetch_pool_t" where
  "one_slot_pool g it k = \<lparr> pool_size = 2, free_top = k, items = [zero_item, it],
     free_slots = [1], gen_ctrs = [0, g], pool_valid = True \<rparr>"

text \<open>Channel 0 of the engine right after the example request was sent.\<close>

definition demo_chn :: sfetch_channel_t where
  "demo_chn = chn (demo_sent 0 0) ! 0"

text \<open>
  An engine with one channel and two lanes, after two requests were sent and the second
  was cancelled; its channel and pool after the admission step of the next dowork pass;
  and the item that a pool holds for an id.
\<close>

definition demo_desc2 :: sfetch_desc_t where
  "demo_desc2 = \<lparr> max_requests = 2, num_channels = 1, num_lanes = 2 \<rparr>"

definition demo_two :: sfetch_run where
  "demo_two = the (exec_events (demo_io 10) no_calls
                     [Ev_call (Call_send (demo_request 0 0)), Ev_call (Call_send (demo_request 0 0)),
                      Ev_call (Call_cancel 0x10002)]
                     \<lparr> ctx = the (sfetch_setup demo_desc2), delivered = [] \<rparr>)"

definition demo_two_admitted :: "sfetch_channel_t \<times> sfetch_pool_t" where
  "demo_two_admitted = the (dowork_admit (chn (ctx demo_two) ! 0) (pool (ctx demo_two)))"

definition item_of :: "sfetch_pool_t \<Rightarrow> u32 \<Rightarrow> sfetch_item_t" where
  "item_of p h = the (the (sfetch_pool_item_lookup p h))"






section \<open>Properties\<close>

subsection \<open>Basic facts about assertions and the pool lookup\<close>

lemma SOKOL_ASSERT_bind [simp]: "(SOKOL_ASSERT c \<bind> f) = (if c then f () else None)"
  by (simp add: SOKOL_ASSERT_def)

lemma lookup_SomeD:
  assumes "sfetch_pool_item_lookup p h = Some (Some item)"
  shows "h \<noteq> 0" "pool_valid p" "0 < sfetch_slot_index h"
    "unat (sfetch_slot_index h) < pool_size p"
    "unat (sfetch_slot_index h) < length (items p)"
    "items p ! unat (sfetch_slot_index h) = item" "handle item = h"
  using assms
  by (auto simp: sfetch_pool_item_lookup_def sfetch_pool_item_at_def array_get_def Let_def
      split: if_splits Option.bind_splits)

lemma lookup_store:
  assumes "sfetch_pool_item_lookup p h = Some (Some item)" "handle item' = h"
  shows "sfetch_pool_item_lookup (pool_item_store p h item') h = Some (Some item')"
  using lookup_SomeD[OF assms(1)] assms(2)
  by (simp add: sfetch_pool_item_lookup_def sfetch_pool_item_at_def array_get_def Let_def
      pool_item_store_def)

lemma store_store:
  "pool_item_store (pool_item_store p h a) h b = pool_item_store p h b"
  by (simp add: pool_item_store_def)

lemma store_same:
  assumes "sfetch_pool_item_lookup p h = Some (Some item)"
  shows "pool_item_store p h item = p"
  using lookup_SomeD(6)[OF assms]
  by (auto simp: pool_item_store_def)

subsection \<open>Flags on one incoming item\<close>

text \<open>
  The body of the prepare loop on one item whose state is not INITIAL, OPENING or FETCHING
  returns, and the new state is what the flags give when applied in the order pause,
  continue, cancel, followed by the dispatch.  The pause and the continue flag are
  cleared, the cancel flag is kept, cancel sets the user-side finished flag, and nothing
  else in the item changes.
\<close>

lemma dowork_prepare_item_flags:
  assumes "state item \<noteq> INITIAL" "state item \<noteq> OPENING" "state item \<noteq> FETCHING"
  shows "\<exists>item'. dowork_prepare_item item = Some item' \<and>
     state item' = dispatch_state (flag_cancel (u_cancel (user item))
                     (flag_continue (u_cont (user item))
                       (flag_pause (u_pause (user item)) (state item)))) \<and>
     u_pause (user item') = False \<and>
     u_cont (user item') = False \<and>
     u_cancel (user item') = u_cancel (user item) \<and>
     u_finished (user item') = (u_finished (user item) \<or> u_cancel (user item)) \<and>
     item' = item\<lparr> state := state item',
                    user := (user item)\<lparr> u_pause := False, u_cont := False,
                                          u_finished := u_finished (user item') \<rparr> \<rparr>"
  using assms
  by (cases "state item")
     (auto simp: dowork_prepare_item_def flag_pause_def flag_continue_def flag_cancel_def Let_def)

subsection \<open>Binding and unbinding a buffer\<close>

text \<open>
  Claim C9.  For a live handle \<open>h\<close> (the pool lookup finds its item) whose item has no
  buffer bound, inside a callback of a valid engine: \<open>sfetch_bind_buffer h p s\<close> returns,
  the following \<open>sfetch_unbind_buffer h\<close> returns exactly \<open>p\<close>, and afterwards the item has
  a null buffer pointer and buffer size zero (the engine is back in the state before the
  two calls).
\<close>

theorem bind_unbind_buffer:
  assumes "valid cx" "in_callback cx"
    and "sfetch_pool_item_lookup (pool cx) h = Some (Some item)"
    and "ptr (buffer item) = 0" "bsize (buffer item) = 0"
  shows "\<exists>cx1 cx2 item2.
           sfetch_bind_buffer cx h p s = Some cx1 \<and>
           sfetch_unbind_buffer cx1 h = Some (p, cx2) \<and>
           sfetch_pool_item_lookup (pool cx2) h = Some (Some item2) \<and>
           ptr (buffer item2) = 0 \<and> bsize (buffer item2) = 0 \<and> cx2 = cx"
proof -
  let ?b = "item\<lparr> buffer := \<lparr> ptr = p, bsize = s \<rparr> \<rparr>"
  let ?cx1 = "cx\<lparr> pool := pool_item_store (pool cx) h ?b \<rparr>"
  have hb: "handle ?b = h" using lookup_SomeD(7)[OF assms(3)] by simp
  have b: "sfetch_bind_buffer cx h p s = Some ?cx1"
    using assms by (simp add: sfetch_bind_buffer_def)
  have l1: "sfetch_pool_item_lookup (pool ?cx1) h = Some (Some ?b)"
    using lookup_store[OF assms(3) hb] by simp
  have restored: "?b\<lparr> buffer := \<lparr> ptr = 0, bsize = 0 \<rparr> \<rparr> = item"
    using assms(4,5) by simp
  have u: "sfetch_unbind_buffer ?cx1 h = Some (p, cx)"
    using assms(1,2) l1 store_same[OF assms(3)]
    by (simp add: sfetch_unbind_buffer_def store_store restored)
  show ?thesis using b u assms(3,4,5) by auto
qed

theorem bind_unbind_buffer_witness:
  "\<exists>cx1 cx2 item2.
     sfetch_bind_buffer ((demo_sent 0 0)\<lparr> in_callback := True \<rparr>) 0x10001 100 4 = Some cx1 \<and>
     sfetch_unbind_buffer cx1 0x10001 = Some (100, cx2) \<and>
     sfetch_pool_item_lookup (pool cx2) 0x10001 = Some (Some item2) \<and>
     ptr (buffer item2) = 0 \<and> bsize (buffer item2) = 0 \<and>
     cx2 = (demo_sent 0 0)\<lparr> in_callback := True \<rparr>"
proof -
  have 1: "valid ((demo_sent 0 0)\<lparr> in_callback := True \<rparr>)" by code_simp
  have 2: "in_callback ((demo_sent 0 0)\<lparr> in_callback := True \<rparr>)" by simp
  have 3: "sfetch_pool_item_lookup (pool ((demo_sent 0 0)\<lparr> in_callback := True \<rparr>)) 0x10001
             = Some (Some demo_item)" by code_simp
  have 4: "ptr (buffer demo_item) = 0" by code_simp
  have 5: "bsize (buffer demo_item) = 0" by code_simp
  show ?thesis by (rule bind_unbind_buffer[OF 1 2 3 4 5])
qed

subsection \<open>Response snapshots\<close>

lemma drain_item_response:
  assumes "dowork_drain_item u c slot_id w = Some w'"
  shows "\<exists>item. sfetch_pool_item_lookup (pool (ctx w)) slot_id = Some (Some item) \<and>
           delivered w' = delivered w @ [dowork_response slot_id (dowork_transfer_output item)]"
  using assms
  by (auto simp: dowork_drain_item_def Let_def split: if_splits Option.bind_splits)

lemma transfer_output_user:
  "u_content_offset (user (dowork_transfer_output item)) = t_content_offset (thread item)"
  "u_fetched_size (user (dowork_transfer_output item)) = t_fetched_size (thread item)"
  "u_content_size (user (dowork_transfer_output item)) = t_content_size (thread item)"
  by (auto simp: dowork_transfer_output_def Let_def split: sfetch_state_t.splits)

lemma streaming_scenario:
   "map_option (map (\<lambda>r. (flags r, r_content_size r, r_content_offset r, r_fetched_size r))
                  \<circ> delivered)
      (exec_events (demo_io 10) no_calls
         [Ev_dowork, Ev_worker 0, Ev_dowork, Ev_worker 0, Ev_dowork, Ev_worker 0, Ev_dowork]
         (demo_start 100 4))
    = Some [((False, True, False, False, False, False), 10, 0, 4),
            ((False, True, False, False, False, False), 10, 4, 4),
            ((False, True, False, False, True, False), 10, 8, 2)]"
  by code_simp

text \<open>
  Claim C5.  Whenever the drain step of a dowork pass delivers a response for an item,
  the snapshot is built from the item as stored in the pool at that moment, and its
  content offset is the item's stored (user-side) content offset minus the fetched size
  that the same snapshot reports.  In particular: the file \<open>f\<close> has 10 bytes, the request
  has a buffer of 4 bytes, the worker runs between the calls of dowork; the callbacks
  are (fetched, offset 0, size 4), (fetched, offset 4, size 4) and (fetched, offset 8,
  size 2, finished), and no others.
\<close>

theorem response_content_offset:
  "(\<forall>u c slot_id w w'. dowork_drain_item u c slot_id w = Some w' \<longrightarrow>
      (\<exists>item stored.
         sfetch_pool_item_lookup (pool (ctx w)) slot_id = Some (Some item) \<and>
         stored = dowork_transfer_output item \<and>
         delivered w' = delivered w @ [dowork_response slot_id stored] \<and>
         r_content_offset (last (delivered w'))
           = u_content_offset (user stored) - u_fetched_size (user stored) \<and>
         r_fetched_size (last (delivered w')) = u_fetched_size (user stored))) \<and>
   map_option (map (\<lambda>r. (flags r, r_content_size r, r_content_offset r, r_fetched_size r))
                 \<circ> delivered)
      (exec_events (demo_io 10) no_calls
         [Ev_dowork, Ev_worker 0, Ev_dowork, Ev_worker 0, Ev_dowork, Ev_worker 0, Ev_dowork]
         (demo_start 100 4))
    = Some [((False, True, False, False, False, False), 10, 0, 4),
            ((False, True, False, False, False, False), 10, 4, 4),
            ((False, True, False, False, True, False), 10, 8, 2)]"
proof (intro conjI allI impI)
  fix u c slot_id w w'
  assume "dowork_drain_item u c slot_id w = Some w'"
  from drain_item_response[OF this] obtain item where
    i: "sfetch_pool_item_lookup (pool (ctx w)) slot_id = Some (Some item)"
       "delivered w' = delivered w @ [dowork_response slot_id (dowork_transfer_output item)]"
    by blast
  show "\<exists>item stored.
         sfetch_pool_item_lookup (pool (ctx w)) slot_id = Some (Some item) \<and>
         stored = dowork_transfer_output item \<and>
         delivered w' = delivered w @ [dowork_response slot_id stored] \<and>
         r_content_offset (last (delivered w'))
           = u_content_offset (user stored) - u_fetched_size (user stored) \<and>
         r_fetched_size (last (delivered w')) = u_fetched_size (user stored)"
    using i by (simp add: dowork_response_def)
qed (rule streaming_scenario)

theorem response_content_offset_witness:
  "\<exists>item stored.
     sfetch_pool_item_lookup (pool (ctx (demo_worked 10))) 0x10001 = Some (Some item) \<and>
     stored = dowork_transfer_output item \<and>
     delivered (the (dowork_drain_item no_calls 0 0x10001 (demo_worked 10)))
       = delivered (demo_worked 10) @ [dowork_response 0x10001 stored] \<and>
     r_content_offset (last (delivered (the (dowork_drain_item no_calls 0 0x10001 (demo_worked 10)))))
       = u_content_offset (user stored) - u_fetched_size (user stored) \<and>
     r_fetched_size (last (delivered (the (dowork_drain_item no_calls 0 0x10001 (demo_worked 10)))))
       = u_fetched_size (user stored)"
proof -
  have "dowork_drain_item no_calls 0 0x10001 (demo_worked 10) \<noteq> None"
    by code_simp
  then have "dowork_drain_item no_calls 0 0x10001 (demo_worked 10)
               = Some (the (dowork_drain_item no_calls 0 0x10001 (demo_worked 10)))"
    by simp
  with response_content_offset show ?thesis by blast
qed

text \<open>
  Claim C1, at a failing input.  The four state flags of a snapshot exclude each other.
  But when \<open>sfetch_cancel\<close> is called while the item is with the worker (between two
  calls of dowork), the next callback reports the fetched chunk with
  \<open>cancelled = true\<close>, \<open>failed = false\<close> and \<open>finished = false\<close>; only the callback after that
  one has failed, finished and cancelled set.
\<close>

theorem cancel_in_flight_response:
  "length (filter id [r_opened (dowork_response slot_id item), r_fetched (dowork_response slot_id item),
                      r_paused (dowork_response slot_id item), r_failed (dowork_response slot_id item)]) \<le> 1 \<and>
   map_option (map flags \<circ> delivered)
      (exec_events (demo_io 10) no_calls
         [Ev_dowork, Ev_call (Call_cancel 0x10001), Ev_worker 0, Ev_dowork, Ev_worker 0, Ev_dowork]
         (demo_start 100 4))
    = Some [(False, True, False, False, False, True),
            (False, False, False, True, True, True)]"
proof
  show "length (filter id [r_opened (dowork_response slot_id item),
          r_fetched (dowork_response slot_id item), r_paused (dowork_response slot_id item),
          r_failed (dowork_response slot_id item)]) \<le> 1"
    by (cases "state item") (simp_all add: dowork_response_def)
  show "map_option (map flags \<circ> delivered)
      (exec_events (demo_io 10) no_calls
         [Ev_dowork, Ev_call (Call_cancel 0x10001), Ev_worker 0, Ev_dowork, Ev_worker 0, Ev_dowork]
         (demo_start 100 4))
    = Some [(False, True, False, False, False, True),
            (False, False, False, True, True, True)]"
    by code_simp
qed

subsection \<open>The longest path\<close>

lemma validate_path_too_long:
  "req_path req = Some s \<Longrightarrow> length s \<ge> SFETCH_MAX_PATH - 1 \<Longrightarrow>
   \<not> sfetch_validate_request cx req"
  by (simp add: sfetch_validate_request_def)

lemma send_invalid:
  "is_setup cx \<Longrightarrow> \<not> sfetch_validate_request cx req \<Longrightarrow> sfetch_send cx req = Some (0, cx)"
  by (simp add: sfetch_send_def)

text \<open>
  Claim C2, at a failing input.  A path of \<open>SFETCH_MAX_PATH - 1 = 1023\<close> characters fits
  into the item's path buffer together with its terminator (\<^verbatim>\<open>_sfetch_path_copy\<close> keeps
  it), but the request does not pass validation and \<open>sfetch_send\<close> returns the invalid
  handle 0 without changing the engine.  The longest path that passes has 1022
  characters.
\<close>

theorem send_path_1023:
  "length (the (req_path (demo_long_path 1023))) = SFETCH_MAX_PATH - 1 \<and>
   sfetch_path_make (req_path (demo_long_path 1023)) = the (req_path (demo_long_path 1023)) \<and>
   \<not> sfetch_validate_request (the (sfetch_setup demo_desc)) (demo_long_path 1023) \<and>
   sfetch_send (the (sfetch_setup demo_desc)) (demo_long_path 1023)
      = Some (0, the (sfetch_setup demo_desc)) \<and>
   sfetch_validate_request (the (sfetch_setup demo_desc)) (demo_long_path 1022)"
proof -
  have 1: "req_path (demo_long_path 1023) = Some (replicate 1023 (CHR ''a''))"
    by (simp add: demo_long_path_def)
  have 2: "length (the (req_path (demo_long_path 1023))) = SFETCH_MAX_PATH - 1"
    by (simp add: 1 SFETCH_MAX_PATH_def)
  have 3: "sfetch_path_make (req_path (demo_long_path 1023)) = the (req_path (demo_long_path 1023))"
    by (simp add: 1 sfetch_path_make_def SFETCH_MAX_PATH_def)
  have 4: "\<not> sfetch_validate_request (the (sfetch_setup demo_desc)) (demo_long_path 1023)"
    by (rule validate_path_too_long[OF 1]) (simp add: SFETCH_MAX_PATH_def)
  have 5: "is_setup (the (sfetch_setup demo_desc))" by code_simp
  have 6: "sfetch_validate_request (the (sfetch_setup demo_desc)) (demo_long_path 1022)"
    by code_simp
  show ?thesis using 2 3 4 send_invalid[OF 5 4] 6 by simp
qed

subsection \<open>The empty file\<close>

text \<open>
  Claim C10, at a failing input.  The file \<open>f\<close> exists and is empty, the request has a
  buffer.  The worker finds the item in state OPENING, opens the file (valid handle,
  nothing failed, content size 0) and goes on to FETCHING because a buffer is bound;
  there content size 0 is not greater than content offset 0, the assertion fails and
  the request handler does not return.
\<close>

theorem request_handler_empty_file:
  "state (demo_opening_item 0) = OPENING \<and>
   ptr (buffer (demo_opening_item 0)) \<noteq> 0 \<and>
   map_option fst (request_handler_opening (demo_io 0) (demo_opening_item 0) OPENING
      (thread (demo_opening_item 0))) = Some FETCHING \<and>
   map_option (\<lambda>(st, th). (sfetch_file_handle_valid (t_file_handle th), t_failed th,
                            t_content_size th, t_content_offset th))
      (request_handler_opening (demo_io 0) (demo_opening_item 0) OPENING
         (thread (demo_opening_item 0))) = Some (True, False, 0, 0) \<and>
   (request_handler_opening (demo_io 0) (demo_opening_item 0) OPENING
         (thread (demo_opening_item 0))
      \<bind> (\<lambda>(st, th). request_handler_fetching (demo_io 0) (demo_opening_item 0) st th)) = None \<and>
   sfetch_request_handler (demo_io 0) (demo_opening 0) 0x10001 = None"
  by code_simp

text \<open>
  Claim C3, at a failing input.  With a file of 4 bytes and a buffer of 4 bytes the
  request gets exactly one callback: fetched, finished, content size 4, offset 0,
  fetched size 4.  With the empty file and the same buffer (whose size is at least the
  content size) the first dowork returns, but the worker's step does not: no callback
  is ever delivered.
\<close>

theorem empty_file_run:
   "map_option (map (\<lambda>r. (flags r, r_content_size r, r_content_offset r, r_fetched_size r))
                  \<circ> delivered)
      (exec_events (demo_io 4) no_calls [Ev_dowork, Ev_worker 0, Ev_dowork] (demo_start 100 4))
    = Some [((False, True, False, False, True, False), 4, 0, 4)] \<and>
    exec_events (demo_io 0) no_calls [Ev_dowork] (demo_start 100 4) \<noteq> None \<and>
    exec_events (demo_io 0) no_calls [Ev_dowork, Ev_worker 0] (demo_start 100 4) = None"
  by code_simp

subsection \<open>Generations of handles\<close>

lemma mod_shift_neq:
  fixes G n m :: nat
  assumes "0 < n" "n < m"
  shows "(G + n) mod m \<noteq> G mod m"
proof
  assume e: "(G + n) mod m = G mod m"
  let ?r = "G mod m"
  have r: "?r < m" using assms by simp
  have s: "(G + n) mod m = (?r + n) mod m" by (simp add: mod_add_left_eq)
  show False
  proof (cases "?r + n < m")
    case True
    then have "(?r + n) mod m = ?r + n" by simp
    with e s assms show False by simp
  next
    case False
    then have "(?r + n) mod m = (?r + n - m) mod m" by (simp add: le_mod_geq)
    also have "\<dots> = ?r + n - m"
    proof (rule mod_less)
      show "?r + n - m < m" using r assms by linarith
    qed
    finally show False using e s assms r False by simp
  qed
qed

lemma mask16: "(0xFFFF :: u32) = mask 16"
  by (simp add: mask_eq_exp_minus_1)

lemma slot_index_make_id: "sfetch_slot_index (sfetch_make_id s g) = s AND 0xFFFF"
  unfolding sfetch_slot_index_def sfetch_make_id_def mask16
  by (rule bit_eqI) (auto simp: bit_simps)

lemma drop_make_id: "drop_bit 16 (sfetch_make_id s g) = take_bit 16 g"
  unfolding sfetch_make_id_def mask16
  by (rule bit_eqI) (auto simp: bit_simps)

lemma unat_take_bit16: "unat (take_bit 16 (w :: u32)) = unat w mod 65536"
  by (simp add: take_bit_eq_mod unat_mod)

lemma make_id_neq:
  fixes g :: u32
  assumes "0 < n" "n < 65536"
  shows "sfetch_make_id s (g + of_nat n) \<noteq> sfetch_make_id s g"
proof
  assume "sfetch_make_id s (g + of_nat n) = sfetch_make_id s g"
  then have "take_bit 16 (g + of_nat n) = take_bit 16 g"
    by (metis drop_make_id)
  then have "unat (g + of_nat n) mod 65536 = unat g mod 65536"
    by (metis unat_take_bit16)
  moreover have "unat (g + of_nat n) = (unat g + n) mod 4294967296"
    using assms(2) by (simp add: unat_word_ariths unat_of_nat)
  moreover have "((unat g + n) mod 4294967296) mod 65536 = (unat g + n) mod 65536"
    by (rule mod_mod_cancel) simp
  ultimately have "(unat g + n) mod 65536 = unat g mod 65536" by simp
  with mod_shift_neq[OF assms, of "unat g"] show False by simp
qed

lemma small_index: "unat (s :: u32) < 65536 \<Longrightarrow> s AND 0xFFFF = s"
proof -
  assume "unat s < 65536"
  then have "s < 2 ^ 16" by (simp add: word_less_nat_alt)
  then show ?thesis unfolding mask16 by (rule less_mask_eq)
qed

lemma slot_index_small: "unat (sfetch_slot_index h) < 65536"
proof -
  have "sfetch_slot_index h \<le> 0xFFFF"
    unfolding sfetch_slot_index_def by (rule word_and_le1)
  then show ?thesis by (simp add: word_le_nat_alt)
qed

lemma item_init_handle:
  "sfetch_item_init item slot_id req = Some item' \<Longrightarrow> handle item' = slot_id"
  by (auto simp: sfetch_item_init_def Let_def split: if_splits option.splits Option.bind_splits)

lemma alloc_facts:
  assumes "sfetch_pool_item_alloc p req = Some (slot_id, p')" "pool_ok p"
  shows "pool_ok p'" "pool_size p' = pool_size p"
    "(slot_id = 0 \<and> p' = p) \<or>
     (slot_id \<noteq> 0 \<and> unat (sfetch_slot_index slot_id) < length (items p) \<and>
      unat (sfetch_slot_index slot_id) < length (gen_ctrs p) \<and>
      gen_ctrs p' = (gen_ctrs p)[unat (sfetch_slot_index slot_id) :=
                        gen_ctrs p ! unat (sfetch_slot_index slot_id) + 1] \<and>
      slot_id = sfetch_make_id (sfetch_slot_index slot_id)
                  (gen_ctrs p ! unat (sfetch_slot_index slot_id) + 1) \<and>
      (\<exists>it. items p' = (items p)[unat (sfetch_slot_index slot_id) := it] \<and> handle it = slot_id))"
proof -
  show "pool_ok p'" "pool_size p' = pool_size p"
    using assms
    by (auto simp: sfetch_pool_item_alloc_def pool_ok_def array_get_def array_set_def Let_def
        split: if_splits Option.bind_splits)
  show "(slot_id = 0 \<and> p' = p) \<or>
     (slot_id \<noteq> 0 \<and> unat (sfetch_slot_index slot_id) < length (items p) \<and>
      unat (sfetch_slot_index slot_id) < length (gen_ctrs p) \<and>
      gen_ctrs p' = (gen_ctrs p)[unat (sfetch_slot_index slot_id) :=
                        gen_ctrs p ! unat (sfetch_slot_index slot_id) + 1] \<and>
      slot_id = sfetch_make_id (sfetch_slot_index slot_id)
                  (gen_ctrs p ! unat (sfetch_slot_index slot_id) + 1) \<and>
      (\<exists>it. items p' = (items p)[unat (sfetch_slot_index slot_id) := it] \<and> handle it = slot_id))"
  proof (cases "free_top p > 0")
    case False
    then show ?thesis using assms
      by (auto simp: sfetch_pool_item_alloc_def sfetch_make_id_def split: if_splits)
  next
    case True
    let ?s = "free_slots p ! (free_top p - 1)"
    from True assms(1) have top: "free_top p - 1 < length (free_slots p)"
      by (auto simp: sfetch_pool_item_alloc_def array_get_def Let_def split: if_splits Option.bind_splits)
    then have "?s \<in> set (free_slots p)" by simp
    with assms(2) have small: "unat ?s < 65536"
      by (auto simp: pool_ok_def list_all_iff)
    have idx: "sfetch_slot_index (sfetch_make_id ?s g) = ?s" for g
      using small_index[OF small] by (simp add: slot_index_make_id)
    from True assms(1) top obtain it where
      a: "0 < ?s" "unat ?s < length (gen_ctrs p)" "unat ?s < length (items p)"
         "slot_id = sfetch_make_id ?s (gen_ctrs p ! unat ?s + 1)"
         "sfetch_item_init (items p ! unat ?s) slot_id req = Some it"
         "p' = p\<lparr> free_top := free_top p - 1,
                  gen_ctrs := (gen_ctrs p)[unat ?s := gen_ctrs p ! unat ?s + 1],
                  items := (items p)[unat ?s := it\<lparr> state := ALLOCATED \<rparr>] \<rparr>"
      by (auto simp: sfetch_pool_item_alloc_def array_get_def array_set_def Let_def
          split: if_splits Option.bind_splits)
    have i: "sfetch_slot_index slot_id = ?s" using a(4) idx by simp
    have nz: "slot_id \<noteq> 0"
    proof
      assume "slot_id = 0"
      then have "sfetch_slot_index slot_id = 0" by (simp add: sfetch_slot_index_def)
      with i a(1) show False by simp
    qed
    show ?thesis
      using a nz i item_init_handle[OF a(5)] by auto
  qed
qed

lemma free_facts:
  assumes "sfetch_pool_item_free p slot_id = Some p'" "pool_ok p"
  shows "pool_ok p'" "pool_size p' = pool_size p" "gen_ctrs p' = gen_ctrs p"
    "items p' = (items p)[unat (sfetch_slot_index slot_id) := zero_item]"
    "unat (sfetch_slot_index slot_id) < length (items p)"
    "handle (items p ! unat (sfetch_slot_index slot_id)) = slot_id"
    "slot_id \<noteq> 0" "0 < sfetch_slot_index slot_id"
    "unat (sfetch_slot_index slot_id) < pool_size p"
proof -
  from assms(1) obtain fs where
    f: "0 < sfetch_slot_index slot_id" "unat (sfetch_slot_index slot_id) < pool_size p"
       "unat (sfetch_slot_index slot_id) < length (items p)"
       "handle (items p ! unat (sfetch_slot_index slot_id)) = slot_id"
       "slot_id \<noteq> 0" "free_top p < length (free_slots p)"
       "p' = p\<lparr> items := (items p)[unat (sfetch_slot_index slot_id) := zero_item],
                free_slots := (free_slots p)[free_top p := sfetch_slot_index slot_id],
                free_top := free_top p + 1 \<rparr>"
    by (auto simp: sfetch_pool_item_free_def sfetch_item_discard_def array_get_def array_set_def
        Let_def split: if_splits Option.bind_splits)
  have "list_all (\<lambda>s. unat s < 65536) ((free_slots p)[free_top p := sfetch_slot_index slot_id])"
    using assms(2) slot_index_small[of slot_id]
    by (auto simp: pool_ok_def list_all_iff dest!: set_update_subset_insert[THEN subsetD])
  then show "pool_ok p'" using assms(2) f by (simp add: pool_ok_def)
  show "pool_size p' = pool_size p" "gen_ctrs p' = gen_ctrs p"
    "items p' = (items p)[unat (sfetch_slot_index slot_id) := zero_item]"
    "unat (sfetch_slot_index slot_id) < length (items p)"
    "handle (items p ! unat (sfetch_slot_index slot_id)) = slot_id"
    "slot_id \<noteq> 0" "0 < sfetch_slot_index slot_id"
    "unat (sfetch_slot_index slot_id) < pool_size p"
    using f by simp_all
qed

lemma modify_facts:
  assumes "pool_step (Op_modify slot_id f) p = Some (r, p')"
  shows "r = 0" "pool_size p' = pool_size p" "gen_ctrs p' = gen_ctrs p"
    "pool_valid p' = pool_valid p" "free_slots p' = free_slots p"
    "length (items p') = length (items p)"
    "handle (items p' ! i) = handle (items p ! i)"
proof -
  show "r = 0" "pool_size p' = pool_size p" "gen_ctrs p' = gen_ctrs p"
    "pool_valid p' = pool_valid p" "free_slots p' = free_slots p"
    "length (items p') = length (items p)"
    using assms
    by (auto simp: pool_item_store_def split: option.splits Option.bind_splits)
  show "handle (items p' ! i) = handle (items p ! i)"
  proof (cases "sfetch_pool_item_lookup p slot_id")
    case None
    then show ?thesis using assms by simp
  next
    case (Some r)
    show ?thesis
    proof (cases r)
      case None
      then show ?thesis using assms Some by simp
    next
      case (Some item)
      note l = lookup_SomeD[OF \<open>sfetch_pool_item_lookup p slot_id = Some r\<close>[unfolded Some]]
      have "p' = pool_item_store p slot_id ((f item)\<lparr> handle := handle item \<rparr>)"
        using assms Some \<open>sfetch_pool_item_lookup p slot_id = Some r\<close> by simp
      then show ?thesis using l
        by (cases "i = unat (sfetch_slot_index slot_id)") (auto simp: pool_item_store_def)
    qed
  qed
qed

lemma step_ok:
  assumes "pool_step a p = Some (r, p')" "pool_ok p"
  shows "pool_ok p' \<and> pool_size p' = pool_size p"
proof (cases a)
  case (Op_alloc req)
  then show ?thesis using assms alloc_facts(1,2)[of p req r p'] by simp
next
  case (Op_free slot_id)
  then show ?thesis using assms free_facts(1,2)[of p slot_id p']
    by (auto split: Option.bind_splits)
next
  case (Op_modify slot_id f)
  with assms(1) have m: "pool_step (Op_modify slot_id f) p = Some (r, p')" by simp
  show ?thesis using assms(2) modify_facts(2,4,5,6)[OF m]
    by (simp add: pool_ok_def)
qed

lemma of_nat_index: "unat (s :: u32) = i \<Longrightarrow> of_nat i = s"
  by auto

lemma step_slot_inv:
  assumes "pool_step a p = Some (r, p')" "pool_ok p" "slot_inv i p"
  shows "slot_inv i p'"
proof (cases a)
  case (Op_alloc req)
  with assms(1) have al: "sfetch_pool_item_alloc p req = Some (r, p')" by simp
  from alloc_facts(3)[OF al assms(2)] show ?thesis
  proof
    assume "r = 0 \<and> p' = p"
    then show ?thesis using assms(3) by simp
  next
    assume h: "r \<noteq> 0 \<and> unat (sfetch_slot_index r) < length (items p) \<and>
      unat (sfetch_slot_index r) < length (gen_ctrs p) \<and>
      gen_ctrs p' = (gen_ctrs p)[unat (sfetch_slot_index r) :=
                        gen_ctrs p ! unat (sfetch_slot_index r) + 1] \<and>
      r = sfetch_make_id (sfetch_slot_index r) (gen_ctrs p ! unat (sfetch_slot_index r) + 1) \<and>
      (\<exists>it. items p' = (items p)[unat (sfetch_slot_index r) := it] \<and> handle it = r)"
    show ?thesis
    proof (cases "unat (sfetch_slot_index r) = i")
      case True
      then have "of_nat i = sfetch_slot_index r" by (rule of_nat_index)
      with h True show ?thesis by (auto simp: slot_inv_def)
    next
      case False
      with h assms(3) show ?thesis by (auto simp: slot_inv_def)
    qed
  qed
next
  case (Op_free slot_id)
  with assms(1) have fr: "sfetch_pool_item_free p slot_id = Some p'"
    by (auto split: Option.bind_splits)
  note f = free_facts[OF fr assms(2)]
  show ?thesis
    using f(3,4,5) assms(3)
    by (cases "unat (sfetch_slot_index slot_id) = i") (auto simp: slot_inv_def zero_item_def)
next
  case (Op_modify slot_id f)
  with assms(1) have m: "pool_step (Op_modify slot_id f) p = Some (r, p')" by simp
  show ?thesis
    using assms(3) modify_facts(3)[OF m] modify_facts(7)[OF m, of i] by (simp add: slot_inv_def)
qed

lemma step_stale_inv:
  assumes "pool_step a p = Some (r, p')" "pool_ok p" "stale_inv i gh n p"
  shows "stale_inv i gh (if r \<noteq> 0 \<and> unat (sfetch_slot_index r) = i then Suc n else n) p'"
proof (cases a)
  case (Op_alloc req)
  with assms(1) have al: "sfetch_pool_item_alloc p req = Some (r, p')" by simp
  from alloc_facts(3)[OF al assms(2)] show ?thesis
  proof
    assume "r = 0 \<and> p' = p"
    then show ?thesis using assms(3) by simp
  next
    assume h: "r \<noteq> 0 \<and> unat (sfetch_slot_index r) < length (items p) \<and>
      unat (sfetch_slot_index r) < length (gen_ctrs p) \<and>
      gen_ctrs p' = (gen_ctrs p)[unat (sfetch_slot_index r) :=
                        gen_ctrs p ! unat (sfetch_slot_index r) + 1] \<and>
      r = sfetch_make_id (sfetch_slot_index r) (gen_ctrs p ! unat (sfetch_slot_index r) + 1) \<and>
      (\<exists>it. items p' = (items p)[unat (sfetch_slot_index r) := it] \<and> handle it = r)"
    show ?thesis
    proof (cases "unat (sfetch_slot_index r) = i")
      case True
      then have "of_nat i = sfetch_slot_index r" by (rule of_nat_index)
      with h True assms(3) show ?thesis by (auto simp: stale_inv_def ac_simps)
    next
      case False
      with h assms(3) show ?thesis by (auto simp: stale_inv_def)
    qed
  qed
next
  case (Op_free slot_id)
  with assms(1) have fr: "sfetch_pool_item_free p slot_id = Some p'" and r: "r = 0"
    by (auto split: Option.bind_splits)
  note f = free_facts[OF fr assms(2)]
  show ?thesis
    using f(3,4,5) assms(3) r
    by (cases "unat (sfetch_slot_index slot_id) = i") (auto simp: stale_inv_def zero_item_def)
next
  case (Op_modify slot_id f)
  with assms(1) have m: "pool_step (Op_modify slot_id f) p = Some (r, p')" by simp
  show ?thesis
    using assms(3) modify_facts(1,3)[OF m] modify_facts(7)[OF m, of i]
    by (simp add: stale_inv_def)
qed

lemma run_ok:
  "pool_run i ops p = Some (n, p') \<Longrightarrow> pool_ok p \<Longrightarrow> pool_ok p' \<and> pool_size p' = pool_size p"
proof (induction ops arbitrary: p n)
  case Nil
  then show ?case by simp
next
  case (Cons a ops)
  from Cons.prems(1) obtain r p1 m where
    s: "pool_step a p = Some (r, p1)" and t: "pool_run i ops p1 = Some (m, p')"
    by (auto split: Option.bind_splits)
  from step_ok[OF s Cons.prems(2)] Cons.IH[OF t] show ?case by simp
qed

lemma run_slot_inv:
  "pool_run i ops p = Some (n, p') \<Longrightarrow> pool_ok p \<Longrightarrow> slot_inv i p \<Longrightarrow> slot_inv i p'"
proof (induction ops arbitrary: p n)
  case Nil
  then show ?case by simp
next
  case (Cons a ops)
  from Cons.prems(1) obtain r p1 m where
    s: "pool_step a p = Some (r, p1)" and t: "pool_run i ops p1 = Some (m, p')"
    by (auto split: Option.bind_splits)
  from step_ok[OF s Cons.prems(2)] step_slot_inv[OF s Cons.prems(2,3)] Cons.IH[OF t]
  show ?case by simp
qed

lemma run_stale_inv:
  "pool_run i ops p = Some (n, p') \<Longrightarrow> pool_ok p \<Longrightarrow> stale_inv i gh a p \<Longrightarrow>
   stale_inv i gh (a + n) p'"
proof (induction ops arbitrary: p n a)
  case Nil
  then show ?case by simp
next
  case (Cons b ops)
  from Cons.prems(1) obtain r p1 m where
    s: "pool_step b p = Some (r, p1)" and t: "pool_run i ops p1 = Some (m, p')"
    and n: "n = (if r \<noteq> 0 \<and> unat (sfetch_slot_index r) = i then Suc m else m)"
    by (auto split: Option.bind_splits)
  from step_ok[OF s Cons.prems(2)] have ok1: "pool_ok p1" by simp
  from Cons.IH[OF t ok1 step_stale_inv[OF s Cons.prems(2,3)]] n
  show ?case by (auto split: if_splits)
qed

lemma init_ok:
  assumes "sfetch_pool_init m = Some p"
  shows "pool_ok p" "pool_size p = m + 1" "i < m + 1 \<Longrightarrow> slot_inv i p"
proof -
  from assms have m: "m < 65535" and
    p: "p = \<lparr> pool_size = m + 1, free_top = m, items = replicate (m + 1) zero_item,
             free_slots = map of_nat (rev [1 ..< m + 1]), gen_ctrs = replicate (m + 1) 0,
             pool_valid = True \<rparr>"
    by (auto simp: sfetch_pool_init_def split: if_splits)
  have "unat (of_nat k :: u32) < 65536" if "k < m + 1" for k
    using that m by (simp add: unat_of_nat)
  then show "pool_ok p" unfolding p by (auto simp: pool_ok_def list_all_iff)
  show "pool_size p = m + 1" unfolding p by simp
  have "items p = replicate (m + 1) zero_item" unfolding p by simp
  moreover assume "i < m + 1"
  ultimately have "items p ! i = zero_item" by (simp only: nth_replicate)
  moreover have "handle zero_item = 0" by (simp add: zero_item_def)
  ultimately show "slot_inv i p" by (simp only: slot_inv_def simp_thms)
qed

lemma one_slot_init: "sfetch_pool_init 1 = Some (one_slot_pool 0 zero_item 1)"
  by (simp add: sfetch_pool_init_def one_slot_pool_def)

lemma make_id_1: "sfetch_slot_index (sfetch_make_id 1 g) = 1" "sfetch_make_id 1 g \<noteq> 0"
proof -
  show i: "sfetch_slot_index (sfetch_make_id 1 g) = 1"
    by (simp add: slot_index_make_id)
  show "sfetch_make_id 1 g \<noteq> 0"
  proof
    assume "sfetch_make_id 1 g = 0"
    then have "sfetch_slot_index (sfetch_make_id 1 g) = 0" by (simp add: sfetch_slot_index_def)
    with i show False by simp
  qed
qed

lemma one_slot_alloc:
  "sfetch_pool_item_alloc (one_slot_pool g zero_item (Suc 0)) (demo_request 0 0)
     = Some (sfetch_make_id 1 (g + 1),
             one_slot_pool (g + 1) (demo_item\<lparr> handle := sfetch_make_id 1 (g + 1) \<rparr>) 0)"
  by (simp add: sfetch_pool_item_alloc_def one_slot_pool_def array_get_def array_set_def
      sfetch_item_init_def demo_request_def demo_item_def zero_item_def sfetch_path_make_def
      SFETCH_MAX_PATH_def SFETCH_INVALID_FILE_HANDLE_def Let_def)

lemma one_slot_free:
  "sfetch_pool_item_free (one_slot_pool g (demo_item\<lparr> handle := sfetch_make_id 1 g \<rparr>) 0)
     (sfetch_make_id 1 g) = Some (one_slot_pool g zero_item (Suc 0))"
  by (simp add: sfetch_pool_item_free_def one_slot_pool_def array_get_def array_set_def
      sfetch_item_discard_def make_id_1 Let_def)

lemma one_slot_cycles:
  "realloc_cycles k (demo_request 0 0) (one_slot_pool g zero_item (Suc 0))
     = Some (one_slot_pool (g + of_nat k) zero_item (Suc 0))"
  by (induction k arbitrary: g) (simp_all add: one_slot_alloc one_slot_free ac_simps)

lemma make_id_wrap: "sfetch_make_id 1 1 = 0x10001" "sfetch_make_id 1 65537 = 0x10001"
  "sfetch_make_id 1 2 = 0x20001"
  by (simp_all add: sfetch_make_id_def)

text \<open>
  Claim C4 as stated fails.  On an engine with room for one request, the first handle
  \<open>0x10001\<close> is allocated and freed; after 65535 further allocate-and-free cycles of the
  slot and one more allocation (65536 re-allocations in all) the slot's generation
  counter is 65537, the new id is again \<open>0x10001\<close>, and \<open>sfetch_handle_valid\<close> returns
  true for the handle that was freed long ago.
\<close>

theorem stale_handle_valid_again:
  "sfetch_pool_init 1 = Some (one_slot_pool 0 zero_item 1) \<and>
   sfetch_pool_item_alloc (one_slot_pool 0 zero_item 1) (demo_request 0 0)
     = Some (0x10001, one_slot_pool 1 demo_item 0) \<and>
   sfetch_pool_item_free (one_slot_pool 1 demo_item 0) 0x10001
     = Some (one_slot_pool 1 zero_item 1) \<and>
   realloc_cycles 65535 (demo_request 0 0) (one_slot_pool 1 zero_item 1)
     = Some (one_slot_pool 65536 zero_item 1) \<and>
   sfetch_pool_item_alloc (one_slot_pool 65536 zero_item 1) (demo_request 0 0)
     = Some (0x10001, one_slot_pool 65537 demo_item 0) \<and>
   sfetch_handle_valid ((demo_sent 0 0)\<lparr> pool := one_slot_pool 65537 demo_item 0 \<rparr>) 0x10001
     = Some True"
proof -
  have d: "demo_item\<lparr> handle := 0x10001 \<rparr> = demo_item" by (simp add: demo_item_def)
  have a1: "sfetch_pool_item_alloc (one_slot_pool 0 zero_item 1) (demo_request 0 0)
     = Some (0x10001, one_slot_pool 1 demo_item 0)"
    using one_slot_alloc[of 0] by (simp add: make_id_wrap d)
  have f1: "sfetch_pool_item_free (one_slot_pool 1 demo_item 0) 0x10001
     = Some (one_slot_pool 1 zero_item 1)"
    using one_slot_free[of 1] by (simp add: make_id_wrap d)
  have c: "realloc_cycles 65535 (demo_request 0 0) (one_slot_pool 1 zero_item 1)
     = Some (one_slot_pool 65536 zero_item 1)"
    using one_slot_cycles[of 65535 1] by simp
  have a2: "sfetch_pool_item_alloc (one_slot_pool 65536 zero_item 1) (demo_request 0 0)
     = Some (0x10001, one_slot_pool 65537 demo_item 0)"
    using one_slot_alloc[of 65536] by (simp add: make_id_wrap d)
  have v: "valid (demo_sent 0 0)" by code_simp
  have hv: "sfetch_handle_valid ((demo_sent 0 0)\<lparr> pool := one_slot_pool 65537 demo_item 0 \<rparr>) 0x10001
     = Some True"
    using v
    by (simp add: sfetch_handle_valid_def sfetch_pool_item_lookup_def sfetch_pool_item_at_def
        one_slot_pool_def array_get_def sfetch_slot_index_def demo_item_def Let_def)
  show ?thesis using one_slot_init a1 f1 c a2 hv by simp
qed

text \<open>
  Claim C4 as amended.  In a pool that \<open>_sfetch_pool_init\<close> made and the engine used
  (\<open>ops1\<close>), the handle \<open>h\<close> is freed; the engine goes on using the pool (\<open>ops2\<close>) and
  allocates the slot of \<open>h\<close> again \<open>n\<close> times.  If \<open>n\<close> is less than \<open>65536 = 2^16\<close>,
  \<open>sfetch_handle_valid h\<close> returns false.
\<close>

theorem stale_handle_invalid:
  assumes init: "sfetch_pool_init m = Some p0"
    and before: "pool_run (unat (sfetch_slot_index h)) ops1 p0 = Some (k, p1)"
    and free: "sfetch_pool_item_free p1 h = Some p2"
    and after: "pool_run (unat (sfetch_slot_index h)) ops2 p2 = Some (n, p3)"
    and n: "n < 65536"
    and cx: "valid cx" "pool cx = p3"
  shows "sfetch_handle_valid cx h = Some False"
proof -
  let ?i = "unat (sfetch_slot_index h)"
  note ok0 = init_ok(1,2)[OF init]
  from run_ok[OF before ok0(1)] have ok1: "pool_ok p1" and sz1: "pool_size p1 = pool_size p0"
    by simp_all
  note f = free_facts[OF free ok1]
  have "?i < m + 1" using f(9) sz1 ok0(2) by simp
  from run_slot_inv[OF before ok0(1) init_ok(3)[OF init this]] have s1: "slot_inv ?i p1" .
  have of: "of_nat ?i = sfetch_slot_index h" by simp
  have h: "h = sfetch_make_id (of_nat ?i) (gen_ctrs p1 ! ?i)"
    using s1 f(6,7) by (auto simp: slot_inv_def)
  have st2: "stale_inv ?i (gen_ctrs p1 ! ?i) 0 p2"
    using f(3,4,5) by (simp add: stale_inv_def zero_item_def)
  from run_ok[OF after f(1)] have ok3: "pool_ok p3" and sz3: "pool_size p3 = pool_size p1"
    using f(2) by simp_all
  from run_stale_inv[OF after f(1) st2] have st3: "stale_inv ?i (gen_ctrs p1 ! ?i) n p3"
    by simp
  have ne: "handle (items p3 ! ?i) \<noteq> h"
  proof (cases "handle (items p3 ! ?i) = 0")
    case True
    then show ?thesis using f(7) by simp
  next
    case False
    with st3 have "0 < n"
      and "handle (items p3 ! ?i) = sfetch_make_id (of_nat ?i) (gen_ctrs p1 ! ?i + of_nat n)"
      by (auto simp: stale_inv_def)
    with make_id_neq[OF \<open>0 < n\<close> n, of "of_nat ?i" "gen_ctrs p1 ! ?i"] h show ?thesis
      by metis
  qed
  have "sfetch_pool_item_lookup p3 h = Some None"
    using ok3 sz3 f(7,8,9) ne
    by (simp add: sfetch_pool_item_lookup_def sfetch_pool_item_at_def array_get_def pool_ok_def
        Let_def)
  then show ?thesis using cx f(7) by (simp add: sfetch_handle_valid_def)
qed

theorem stale_handle_invalid_witness:
  "sfetch_handle_valid ((demo_sent 0 0)\<lparr> pool := one_slot_pool 2 (demo_item\<lparr> handle := 0x20001 \<rparr>) 0 \<rparr>)
     0x10001 = Some False"
proof -
  have i: "unat (sfetch_slot_index 0x10001) = 1" by (simp add: sfetch_slot_index_def)
  have d: "demo_item\<lparr> handle := 0x10001 \<rparr> = demo_item" by (simp add: demo_item_def)
  have a1: "sfetch_pool_item_alloc (one_slot_pool 0 zero_item 1) (demo_request 0 0)
     = Some (0x10001, one_slot_pool 1 demo_item 0)"
    using one_slot_alloc[of 0] by (simp add: make_id_wrap d)
  have b: "pool_run (unat (sfetch_slot_index 0x10001)) [Op_alloc (demo_request 0 0)]
             (one_slot_pool 0 zero_item 1) = Some (1, one_slot_pool 1 demo_item 0)"
    using a1 by (simp add: sfetch_slot_index_def)
  have f: "sfetch_pool_item_free (one_slot_pool 1 demo_item 0) 0x10001
     = Some (one_slot_pool 1 zero_item 1)"
    using one_slot_free[of 1] by (simp add: make_id_wrap d)
  have a2: "sfetch_pool_item_alloc (one_slot_pool 1 zero_item 1) (demo_request 0 0)
     = Some (0x20001, one_slot_pool 2 (demo_item\<lparr> handle := 0x20001 \<rparr>) 0)"
    using one_slot_alloc[of 1] by (simp add: make_id_wrap)
  have a: "pool_run (unat (sfetch_slot_index 0x10001)) [Op_alloc (demo_request 0 0)]
             (one_slot_pool 1 zero_item 1)
           = Some (1, one_slot_pool 2 (demo_item\<lparr> handle := 0x20001 \<rparr>) 0)"
    using a2 by (simp add: sfetch_slot_index_def)
  have v: "valid ((demo_sent 0 0)\<lparr> pool := one_slot_pool 2 (demo_item\<lparr> handle := 0x20001 \<rparr>) 0 \<rparr>)"
    by code_simp
  show ?thesis
    by (rule stale_handle_invalid[OF one_slot_init b f a _ v]) simp_all
qed

subsection \<open>Rings as queues\<close>

lemma ring_contents_length [simp]: "length (ring_contents rb) = ring_raw_count rb"
  by (simp add: ring_contents_def)

lemma ring_raw_count_less: "ring_wf rb \<Longrightarrow> ring_raw_count rb < num rb"
  by (auto simp: ring_wf_def ring_raw_count_def)

lemma ring_head_pos: "ring_wf rb \<Longrightarrow> (tail rb + ring_raw_count rb) mod num rb = head rb"
  by (auto simp: ring_wf_def ring_raw_count_def)

lemma ring_count_contents:
  "ring_wf rb \<Longrightarrow> sfetch_ring_count rb = Some (length (ring_contents rb))"
  using ring_raw_count_less[of rb]
  by (auto simp: sfetch_ring_count_def ring_wf_def ring_raw_count_def Let_def)

lemma ring_empty_contents:
  "ring_wf rb \<Longrightarrow> sfetch_ring_empty rb = Some (ring_contents rb = [])"
proof -
  assume wf: "ring_wf rb"
  have "(ring_contents rb = []) = (ring_raw_count rb = 0)"
    using ring_contents_length[of rb] by (metis length_0_conv)
  also have "\<dots> = (head rb = tail rb)"
    using wf by (auto simp: ring_wf_def ring_raw_count_def)
  finally show ?thesis using wf by (auto simp: sfetch_ring_empty_def ring_wf_def)
qed

lemma ring_full_contents:
  assumes wf: "ring_wf rb"
  shows "sfetch_ring_full rb = Some (Suc (length (ring_contents rb)) = num rb)"
proof -
  have n: "num rb > 0" "buf rb \<noteq> []" using wf by (auto simp: ring_wf_def)
  have "((head rb + 1) mod num rb = tail rb) = (Suc (ring_raw_count rb) = num rb)"
  proof (cases "head rb + 1 < num rb")
    case True
    then show ?thesis using wf by (auto simp: ring_wf_def ring_raw_count_def)
  next
    case False
    with wf have h: "head rb + 1 = num rb" by (auto simp: ring_wf_def)
    then have "(head rb + 1) mod num rb = 0" by simp
    then show ?thesis using wf h by (auto simp: ring_wf_def ring_raw_count_def)
  qed
  then show ?thesis using n
    by (simp add: sfetch_ring_full_def sfetch_ring_wrap_def)
qed

lemma ring_dequeue_contents:
  assumes wf: "ring_wf rb" and ne: "ring_contents rb \<noteq> []"
  shows "\<exists>rb'. sfetch_ring_dequeue rb = Some (hd (ring_contents rb), rb') \<and> ring_wf rb' \<and>
           ring_contents rb' = tl (ring_contents rb) \<and> num rb' = num rb"
proof -
  let ?rb' = "rb\<lparr> tail := (tail rb + 1) mod num rb \<rparr>"
  have n: "num rb > 0" "buf rb \<noteq> []" "tail rb < num rb" "tail rb < length (buf rb)"
    using wf by (auto simp: ring_wf_def)
  have c: "ring_raw_count rb > 0" using ne ring_contents_length[of rb] by (metis length_greater_0_conv)
  then have ht: "head rb \<noteq> tail rb" by (auto simp: ring_raw_count_def)
  have d: "sfetch_ring_dequeue rb = Some (buf rb ! tail rb, ?rb')"
    using n ht by (simp add: sfetch_ring_dequeue_def sfetch_ring_empty_def sfetch_ring_wrap_def
        array_get_def)
  have wf': "ring_wf ?rb'" using wf by (simp add: ring_wf_def)
  have cnt: "ring_raw_count rb = Suc (ring_raw_count ?rb')"
  proof (cases "tail rb + 1 < num rb")
    case True
    then show ?thesis using wf ht by (auto simp: ring_wf_def ring_raw_count_def)
  next
    case False
    with wf have h: "tail rb + 1 = num rb" by (auto simp: ring_wf_def)
    then have "(tail rb + 1) mod num rb = 0" by simp
    then show ?thesis using wf h ht by (auto simp: ring_wf_def ring_raw_count_def)
  qed
  have idx: "(Suc (tail rb) mod num rb + k) mod num rb = Suc (tail rb + k) mod num rb" for k
    by (metis add_Suc mod_add_left_eq)
  have u: "[0 ..< Suc c] = 0 # map Suc [0 ..< c]" for c
    by (simp add: upt_conv_Cons map_Suc_upt del: upt_Suc)
  have "ring_contents rb = buf rb ! tail rb # ring_contents ?rb'"
    unfolding ring_contents_def cnt u
    using n(3) by (simp add: idx o_def)
  then show ?thesis using d wf' by simp
qed

lemma ring_enqueue_contents:
  assumes wf: "ring_wf rb" and room: "Suc (length (ring_contents rb)) < num rb"
  shows "\<exists>rb'. sfetch_ring_enqueue rb x = Some rb' \<and> ring_wf rb' \<and>
           ring_contents rb' = ring_contents rb @ [x] \<and> num rb' = num rb"
proof -
  let ?rb' = "rb\<lparr> buf := (buf rb)[head rb := x], head := (head rb + 1) mod num rb \<rparr>"
  have n: "num rb > 0" "buf rb \<noteq> []" "head rb < num rb" "head rb < length (buf rb)"
    using wf by (auto simp: ring_wf_def)
  have nf: "sfetch_ring_full rb = Some False"
    using ring_full_contents[OF wf] room by simp
  have e: "sfetch_ring_enqueue rb x = Some ?rb'"
    using n nf by (simp add: sfetch_ring_enqueue_def sfetch_ring_wrap_def array_set_def)
  have wf': "ring_wf ?rb'" using wf by (simp add: ring_wf_def)
  have cnt: "ring_raw_count ?rb' = Suc (ring_raw_count rb)"
  proof (cases "head rb + 1 < num rb")
    case True
    then show ?thesis using wf room by (auto simp: ring_wf_def ring_raw_count_def split: if_splits)
  next
    case False
    with wf have h: "head rb + 1 = num rb" by (auto simp: ring_wf_def)
    then have "(head rb + 1) mod num rb = 0" by simp
    then show ?thesis using wf h room by (auto simp: ring_wf_def ring_raw_count_def)
  qed
  have old: "(buf rb)[head rb := x] ! ((tail rb + k) mod num rb) = buf rb ! ((tail rb + k) mod num rb)"
    if "k < ring_raw_count rb" for k
  proof -
    have "ring_raw_count rb - k < num rb" "0 < ring_raw_count rb - k"
      using that ring_raw_count_less[OF wf] by simp_all
    from mod_shift_neq[OF this(2,1), of "tail rb + k"] that
    have "(tail rb + k) mod num rb \<noteq> head rb"
      using ring_head_pos[OF wf] by (simp add: add.assoc)
    then show ?thesis by simp
  qed
  have new: "(buf rb)[head rb := x] ! ((tail rb + ring_raw_count rb) mod num rb) = x"
    using ring_head_pos[OF wf] n(4) by simp
  have m: "map (\<lambda>k. (buf rb)[head rb := x] ! ((tail rb + k) mod num rb)) [0 ..< ring_raw_count rb]
             = map (\<lambda>k. buf rb ! ((tail rb + k) mod num rb)) [0 ..< ring_raw_count rb]"
    by (rule map_cong[OF refl]) (simp add: old)
  have "ring_contents ?rb' = ring_contents rb @ [x]"
    unfolding ring_contents_def cnt
    using m new by simp
  then show ?thesis using e wf' by simp
qed

subsection \<open>Admission from the sent queue\<close>

lemma lookup_store_other:
  assumes "sfetch_pool_item_lookup p h = Some (Some item)" "handle item' = h" "h' \<noteq> h"
  shows "sfetch_pool_item_lookup (pool_item_store p h item') h' = sfetch_pool_item_lookup p h'"
proof (cases "unat (sfetch_slot_index h') = unat (sfetch_slot_index h)")
  case True
  then show ?thesis
    using lookup_SomeD[OF assms(1)] assms(2,3)
    by (simp add: sfetch_pool_item_lookup_def sfetch_pool_item_at_def array_get_def Let_def
        pool_item_store_def)
next
  case False
  then show ?thesis
    by (simp add: sfetch_pool_item_lookup_def sfetch_pool_item_at_def array_get_def Let_def
        pool_item_store_def)
qed

lemma is_liveD: "is_live p h \<Longrightarrow> \<exists>item. sfetch_pool_item_lookup p h = Some (Some item)"
  by (auto simp: is_live_def split: option.splits)

lemma admit_loop:
  assumes "ring_wf (user_sent ch)" "ring_wf (free_lanes ch)" "ring_wf (user_incoming ch)"
    and "k \<le> length (ring_contents (user_sent ch))"
    and "k \<le> length (ring_contents (free_lanes ch))"
    and "length (ring_contents (user_incoming ch)) + k < num (user_incoming ch)"
    and "list_all (is_live p) (take k (ring_contents (user_sent ch)))"
    and "distinct (take k (ring_contents (user_sent ch)))"
  shows "\<exists>ch' p'. dowork_admit_loop k ch p = Some (ch', p') \<and>
    ring_wf (user_sent ch') \<and> ring_wf (free_lanes ch') \<and> ring_wf (user_incoming ch') \<and>
    ring_contents (user_sent ch') = drop k (ring_contents (user_sent ch)) \<and>
    ring_contents (free_lanes ch') = drop k (ring_contents (free_lanes ch)) \<and>
    ring_contents (user_incoming ch')
      = ring_contents (user_incoming ch) @ take k (ring_contents (user_sent ch)) \<and>
    user_outgoing ch' = user_outgoing ch \<and> thread_incoming ch' = thread_incoming ch \<and>
    thread_outgoing ch' = thread_outgoing ch \<and> chn_valid ch' = chn_valid ch \<and>
    (\<forall>j<k. \<exists>item. sfetch_pool_item_lookup p (ring_contents (user_sent ch) ! j) = Some (Some item) \<and>
             sfetch_pool_item_lookup p' (ring_contents (user_sent ch) ! j)
               = Some (Some (item\<lparr> lane := ring_contents (free_lanes ch) ! j \<rparr>))) \<and>
    (\<forall>h. h \<notin> set (take k (ring_contents (user_sent ch))) \<longrightarrow>
          sfetch_pool_item_lookup p' h = sfetch_pool_item_lookup p h)"
  using assms
proof (induction k arbitrary: ch p)
  case 0
  then show ?case by simp
next
  case (Suc k)
  let ?sent = "ring_contents (user_sent ch)"
  let ?lanes = "ring_contents (free_lanes ch)"
  let ?inc = "ring_contents (user_incoming ch)"
  from Suc.prems(4) obtain s0 rest where sent: "?sent = s0 # rest"
    by (cases ?sent) auto
  from Suc.prems(5) obtain l0 lrest where lanes: "?lanes = l0 # lrest"
    by (cases ?lanes) auto
  from ring_dequeue_contents[OF Suc.prems(1)] sent obtain sent' where
    ds: "sfetch_ring_dequeue (user_sent ch) = Some (s0, sent')" "ring_wf sent'"
        "ring_contents sent' = rest"
    by auto
  from ring_dequeue_contents[OF Suc.prems(2)] lanes obtain fl' where
    dl: "sfetch_ring_dequeue (free_lanes ch) = Some (l0, fl')" "ring_wf fl'"
        "ring_contents fl' = lrest"
    by auto
  from Suc.prems(7) sent have "is_live p s0" by simp
  then obtain item where it: "sfetch_pool_item_lookup p s0 = Some (Some item)"
    using is_liveD by blast
  from Suc.prems(6) have "Suc (length ?inc) < num (user_incoming ch)" by simp
  from ring_enqueue_contents[OF Suc.prems(3) this, of s0] obtain inc' where
    en: "sfetch_ring_enqueue (user_incoming ch) s0 = Some inc'" "ring_wf inc'"
        "ring_contents inc' = ?inc @ [s0]" "num inc' = num (user_incoming ch)"
    by auto
  let ?p1 = "pool_item_store p s0 (item\<lparr> lane := l0 \<rparr>)"
  let ?ch1 = "ch\<lparr> user_sent := sent', free_lanes := fl', user_incoming := inc' \<rparr>"
  have hi: "handle (item\<lparr> lane := l0 \<rparr>) = s0" using lookup_SomeD(7)[OF it] by simp
  have step: "dowork_admit_loop (Suc k) ch p = dowork_admit_loop k ?ch1 ?p1"
    using ds(1) dl(1) it en(1) by simp
  have other: "sfetch_pool_item_lookup ?p1 h = sfetch_pool_item_lookup p h" if "h \<noteq> s0" for h
    using lookup_store_other[OF it hi that] .
  have s0_notin: "s0 \<notin> set (take k rest)" and dist: "distinct (take k rest)"
    using Suc.prems(8) sent by simp_all
  have live1: "list_all (is_live ?p1) (take k rest)"
    unfolding list_all_iff
  proof
    fix x assume x: "x \<in> set (take k rest)"
    with s0_notin have "x \<noteq> s0" by auto
    from other[OF this] have e: "sfetch_pool_item_lookup ?p1 x = sfetch_pool_item_lookup p x" .
    from x Suc.prems(7) sent have "is_live p x" by (simp add: list_all_iff)
    then show "is_live ?p1 x" unfolding is_live_def e .
  qed
  have "\<exists>ch' p'. dowork_admit_loop k ?ch1 ?p1 = Some (ch', p') \<and>
    ring_wf (user_sent ch') \<and> ring_wf (free_lanes ch') \<and> ring_wf (user_incoming ch') \<and>
    ring_contents (user_sent ch') = drop k (ring_contents (user_sent ?ch1)) \<and>
    ring_contents (free_lanes ch') = drop k (ring_contents (free_lanes ?ch1)) \<and>
    ring_contents (user_incoming ch')
      = ring_contents (user_incoming ?ch1) @ take k (ring_contents (user_sent ?ch1)) \<and>
    user_outgoing ch' = user_outgoing ?ch1 \<and> thread_incoming ch' = thread_incoming ?ch1 \<and>
    thread_outgoing ch' = thread_outgoing ?ch1 \<and> chn_valid ch' = chn_valid ?ch1 \<and>
    (\<forall>j<k. \<exists>item. sfetch_pool_item_lookup ?p1 (ring_contents (user_sent ?ch1) ! j) = Some (Some item) \<and>
             sfetch_pool_item_lookup p' (ring_contents (user_sent ?ch1) ! j)
               = Some (Some (item\<lparr> lane := ring_contents (free_lanes ?ch1) ! j \<rparr>))) \<and>
    (\<forall>h. h \<notin> set (take k (ring_contents (user_sent ?ch1))) \<longrightarrow>
          sfetch_pool_item_lookup p' h = sfetch_pool_item_lookup ?p1 h)"
  proof (rule Suc.IH)
    show "ring_wf (user_sent ?ch1)" "ring_wf (free_lanes ?ch1)" "ring_wf (user_incoming ?ch1)"
      using ds(2) dl(2) en(2) by simp_all
    show "k \<le> length (ring_contents (user_sent ?ch1))"
      using Suc.prems(4) sent ds(3) by (metis Suc_le_mono length_Cons sfetch_channel_t.select_convs(2) sfetch_channel_t.surjective sfetch_channel_t.update_convs(1,2,3))
    show "k \<le> length (ring_contents (free_lanes ?ch1))"
      using Suc.prems(5) lanes dl(3) by (metis Suc_le_mono length_Cons sfetch_channel_t.select_convs(1) sfetch_channel_t.surjective sfetch_channel_t.update_convs(1,2,3))
    show "length (ring_contents (user_incoming ?ch1)) + k < num (user_incoming ?ch1)"
      using Suc.prems(6) en(3,4) by simp
    show "list_all (is_live ?p1) (take k (ring_contents (user_sent ?ch1)))"
      using live1 ds(3) by simp
    show "distinct (take k (ring_contents (user_sent ?ch1)))"
      using dist ds(3) by simp
  qed
  then obtain ch' p' where r:
    "dowork_admit_loop k ?ch1 ?p1 = Some (ch', p')"
    "ring_wf (user_sent ch')" "ring_wf (free_lanes ch')" "ring_wf (user_incoming ch')"
    "ring_contents (user_sent ch') = drop k rest"
    "ring_contents (free_lanes ch') = drop k lrest"
    "ring_contents (user_incoming ch') = (?inc @ [s0]) @ take k rest"
    "user_outgoing ch' = user_outgoing ch" "thread_incoming ch' = thread_incoming ch"
    "thread_outgoing ch' = thread_outgoing ch" "chn_valid ch' = chn_valid ch"
    "\<forall>j<k. \<exists>item. sfetch_pool_item_lookup ?p1 (rest ! j) = Some (Some item) \<and>
             sfetch_pool_item_lookup p' (rest ! j) = Some (Some (item\<lparr> lane := lrest ! j \<rparr>))"
    "\<forall>h. h \<notin> set (take k rest) \<longrightarrow> sfetch_pool_item_lookup p' h = sfetch_pool_item_lookup ?p1 h"
    using ds(3) dl(3) en(3) by auto
  have items: "\<exists>item. sfetch_pool_item_lookup p (?sent ! j) = Some (Some item) \<and>
             sfetch_pool_item_lookup p' (?sent ! j) = Some (Some (item\<lparr> lane := ?lanes ! j \<rparr>))"
    if j: "j < Suc k" for j
  proof (cases j)
    case 0
    have "sfetch_pool_item_lookup p' s0 = sfetch_pool_item_lookup ?p1 s0"
      using r(13) s0_notin by blast
    also have "\<dots> = Some (Some (item\<lparr> lane := l0 \<rparr>))"
      using lookup_store[OF it hi] .
    finally show ?thesis using 0 sent lanes it by simp
  next
    case (Suc j')
    with j have j': "j' < k" by simp
    from r(12) j' obtain item' where
      i: "sfetch_pool_item_lookup ?p1 (rest ! j') = Some (Some item')"
         "sfetch_pool_item_lookup p' (rest ! j') = Some (Some (item'\<lparr> lane := lrest ! j' \<rparr>))"
      by blast
    have "j' < length rest" using Suc.prems(4) sent j' by simp
    then have "rest ! j' \<in> set (take k rest)" using j'
      by (metis in_set_conv_nth length_take min_less_iff_conj nth_take)
    with s0_notin have "rest ! j' \<noteq> s0" by auto
    from other[OF this] i have "sfetch_pool_item_lookup p (rest ! j') = Some (Some item')"
      by simp
    with i(2) show ?thesis using Suc sent lanes by auto
  qed
  have unchanged: "sfetch_pool_item_lookup p' h = sfetch_pool_item_lookup p h"
    if "h \<notin> set (take (Suc k) ?sent)" for h
  proof -
    from that sent have "h \<noteq> s0" "h \<notin> set (take k rest)" by simp_all
    with r(13) other show ?thesis by simp
  qed
  show ?case
    using step r(1-11) items unchanged sent lanes by simp
qed

text \<open>
  Claim C7.  The admission step of a channel dowork pass, on a channel whose sent,
  free-lanes and user-incoming rings are well formed, with \<open>n\<close> the minimum of the counts
  of the sent queue and of the free-lanes queue, with room for \<open>n\<close> more ids in
  user-incoming, and with the first \<open>n\<close> ids of the sent queue live and distinct.  The
  step returns; the counts that the code computes are the lengths of the two queues;
  exactly the first \<open>n\<close> ids leave the sent queue and the first \<open>n\<close> lanes leave the
  free-lanes queue; these ids are appended, in order, to user-incoming; the \<open>j\<close>-th
  admitted item gets the \<open>j\<close>-th lane written into it and is otherwise unchanged (its
  state stays as it was, ALLOCATED for an item that waits in the sent queue); the other
  queues and all other items are untouched.
\<close>

theorem dowork_admit_moves:
  assumes wf: "ring_wf (user_sent ch)" "ring_wf (free_lanes ch)" "ring_wf (user_incoming ch)"
    and n: "n = min (length (ring_contents (user_sent ch))) (length (ring_contents (free_lanes ch)))"
    and room: "length (ring_contents (user_incoming ch)) + n < num (user_incoming ch)"
    and live: "list_all (is_live p) (take n (ring_contents (user_sent ch)))"
    and dist: "distinct (take n (ring_contents (user_sent ch)))"
  shows "\<exists>ch' p'. dowork_admit ch p = Some (ch', p') \<and>
    sfetch_ring_count (user_sent ch) = Some (length (ring_contents (user_sent ch))) \<and>
    sfetch_ring_count (free_lanes ch) = Some (length (ring_contents (free_lanes ch))) \<and>
    ring_contents (user_sent ch') = drop n (ring_contents (user_sent ch)) \<and>
    ring_contents (free_lanes ch') = drop n (ring_contents (free_lanes ch)) \<and>
    ring_contents (user_incoming ch')
      = ring_contents (user_incoming ch) @ take n (ring_contents (user_sent ch)) \<and>
    user_outgoing ch' = user_outgoing ch \<and> thread_incoming ch' = thread_incoming ch \<and>
    thread_outgoing ch' = thread_outgoing ch \<and>
    (\<forall>j<n. \<exists>item item'.
        sfetch_pool_item_lookup p (ring_contents (user_sent ch) ! j) = Some (Some item) \<and>
        sfetch_pool_item_lookup p' (ring_contents (user_sent ch) ! j) = Some (Some item') \<and>
        item' = item\<lparr> lane := ring_contents (free_lanes ch) ! j \<rparr> \<and>
        state item' = state item) \<and>
    (\<forall>h. h \<notin> set (take n (ring_contents (user_sent ch))) \<longrightarrow>
          sfetch_pool_item_lookup p' h = sfetch_pool_item_lookup p h)"
proof -
  have k1: "n \<le> length (ring_contents (user_sent ch))"
    and k2: "n \<le> length (ring_contents (free_lanes ch))"
    using n by simp_all
  from admit_loop[OF wf k1 k2 room live dist] obtain ch' p' where r:
    "dowork_admit_loop n ch p = Some (ch', p')"
    "ring_contents (user_sent ch') = drop n (ring_contents (user_sent ch))"
    "ring_contents (free_lanes ch') = drop n (ring_contents (free_lanes ch))"
    "ring_contents (user_incoming ch')
      = ring_contents (user_incoming ch) @ take n (ring_contents (user_sent ch))"
    "user_outgoing ch' = user_outgoing ch" "thread_incoming ch' = thread_incoming ch"
    "thread_outgoing ch' = thread_outgoing ch"
    "\<forall>j<n. \<exists>item. sfetch_pool_item_lookup p (ring_contents (user_sent ch) ! j) = Some (Some item) \<and>
             sfetch_pool_item_lookup p' (ring_contents (user_sent ch) ! j)
               = Some (Some (item\<lparr> lane := ring_contents (free_lanes ch) ! j \<rparr>))"
    "\<forall>h. h \<notin> set (take n (ring_contents (user_sent ch))) \<longrightarrow>
          sfetch_pool_item_lookup p' h = sfetch_pool_item_lookup p h"
    by blast
  have c: "sfetch_ring_count (user_sent ch) = Some (length (ring_contents (user_sent ch)))"
    "sfetch_ring_count (free_lanes ch) = Some (length (ring_contents (free_lanes ch)))"
    using wf ring_count_contents by simp_all
  have "(if length (ring_contents (user_sent ch)) < length (ring_contents (free_lanes ch))
         then length (ring_contents (user_sent ch))
         else length (ring_contents (free_lanes ch))) = n"
    using n by (simp add: min_def)
  then have a: "dowork_admit ch p = Some (ch', p')"
    using r(1) c by (simp add: dowork_admit_def Let_def del: ring_contents_length)
  have "\<forall>j<n. \<exists>item item'.
        sfetch_pool_item_lookup p (ring_contents (user_sent ch) ! j) = Some (Some item) \<and>
        sfetch_pool_item_lookup p' (ring_contents (user_sent ch) ! j) = Some (Some item') \<and>
        item' = item\<lparr> lane := ring_contents (free_lanes ch) ! j \<rparr> \<and>
        state item' = state item"
    using r(8) by fastforce
  with a c r(2-7,9) show ?thesis by blast
qed

theorem dowork_admit_moves_witness:
  "\<exists>ch' p' item.
     dowork_admit demo_chn (pool (demo_sent 0 0)) = Some (ch', p') \<and>
     ring_contents (user_sent demo_chn) = [0x10001] \<and>
     ring_contents (free_lanes demo_chn) = [0] \<and>
     ring_contents (user_sent ch') = [] \<and>
     ring_contents (free_lanes ch') = [] \<and>
     ring_contents (user_incoming ch') = [0x10001] \<and>
     sfetch_pool_item_lookup p' 0x10001 = Some (Some item) \<and>
     lane item = 0 \<and> state item = ALLOCATED"
proof -
  have s: "ring_contents (user_sent demo_chn) = [0x10001]" by code_simp
  have l: "ring_contents (free_lanes demo_chn) = [0]" by code_simp
  have i: "ring_contents (user_incoming demo_chn) = []" by code_simp
  have w: "ring_wf (user_sent demo_chn)" "ring_wf (free_lanes demo_chn)"
    "ring_wf (user_incoming demo_chn)" by code_simp+
  have n: "1 = min (length (ring_contents (user_sent demo_chn)))
                   (length (ring_contents (free_lanes demo_chn)))"
    unfolding s l by simp
  have room: "length (ring_contents (user_incoming demo_chn)) + 1 < num (user_incoming demo_chn)"
    by code_simp
  have lk: "sfetch_pool_item_lookup (pool (demo_sent 0 0)) 0x10001 = Some (Some demo_item)"
    by code_simp
  have live: "list_all (is_live (pool (demo_sent 0 0))) (take 1 (ring_contents (user_sent demo_chn)))"
    unfolding s by (simp add: is_live_def lk)
  have dist: "distinct (take 1 (ring_contents (user_sent demo_chn)))"
    unfolding s by simp
  from dowork_admit_moves[OF w n room live dist] obtain ch' p' where r:
    "dowork_admit demo_chn (pool (demo_sent 0 0)) = Some (ch', p')"
    "ring_contents (user_sent ch') = drop 1 (ring_contents (user_sent demo_chn))"
    "ring_contents (free_lanes ch') = drop 1 (ring_contents (free_lanes demo_chn))"
    "ring_contents (user_incoming ch')
      = ring_contents (user_incoming demo_chn) @ take 1 (ring_contents (user_sent demo_chn))"
    "\<forall>j<1. \<exists>item item'.
        sfetch_pool_item_lookup (pool (demo_sent 0 0)) (ring_contents (user_sent demo_chn) ! j)
          = Some (Some item) \<and>
        sfetch_pool_item_lookup p' (ring_contents (user_sent demo_chn) ! j) = Some (Some item') \<and>
        item' = item\<lparr> lane := ring_contents (free_lanes demo_chn) ! j \<rparr> \<and>
        state item' = state item"
    by blast
  from r(5) have "sfetch_pool_item_lookup p' 0x10001 = Some (Some (demo_item\<lparr> lane := 0 \<rparr>))"
    unfolding s l using lk by auto
  moreover have "state (demo_item\<lparr> lane := 0 \<rparr>) = ALLOCATED" "lane (demo_item\<lparr> lane := 0 \<rparr>) = 0"
    by (simp_all add: demo_item_def)
  ultimately show ?thesis using r(1-4) s l i by auto
qed

subsection \<open>Preparing the incoming items\<close>

lemma ring_peek_contents:
  assumes "ring_wf rb" "i < length (ring_contents rb)"
  shows "sfetch_ring_peek rb i = Some (ring_contents rb ! i)"
proof -
  from assms(2) have ne: "ring_contents rb \<noteq> []" by (auto simp del: ring_contents_length)
  with ring_empty_contents[OF assms(1)] have e: "sfetch_ring_empty rb = Some False" by simp
  have c: "sfetch_ring_count rb = Some (length (ring_contents rb))"
    using ring_count_contents[OF assms(1)] by simp
  from assms(1) have n: "0 < num rb" "length (buf rb) = num rb" by (auto simp: ring_wf_def)
  then have b: "buf rb \<noteq> []" by auto
  have "ring_contents rb ! i = buf rb ! ((tail rb + i) mod num rb)"
    using assms(2) by (simp add: ring_contents_def)
  with e c n b assms(2) show ?thesis
    by (simp add: sfetch_ring_peek_def sfetch_ring_wrap_def array_get_def del: ring_contents_length)
qed


lemma prepare_item_handle:
  "dowork_prepare_item item = Some item' \<Longrightarrow> handle item' = handle item"
  by (auto simp: dowork_prepare_item_def Let_def split: if_splits sfetch_state_t.splits)

lemma prepare_loop:
  assumes wf: "ring_wf (user_incoming ch)"
    and len: "i + k = length (ring_contents (user_incoming ch))"
    and dist: "distinct (ring_contents (user_incoming ch))"
    and live: "\<forall>h \<in> set (drop i (ring_contents (user_incoming ch))).
        \<exists>item. sfetch_pool_item_lookup p h = Some (Some item) \<and>
          state item \<noteq> INITIAL \<and> state item \<noteq> OPENING \<and> state item \<noteq> FETCHING"
  shows "\<exists>p'. dowork_prepare_loop k i ch p = Some p' \<and>
    (\<forall>h \<in> set (drop i (ring_contents (user_incoming ch))). \<exists>item item'.
        sfetch_pool_item_lookup p h = Some (Some item) \<and>
        dowork_prepare_item item = Some item' \<and>
        sfetch_pool_item_lookup p' h = Some (Some item')) \<and>
    (\<forall>h. h \<notin> set (drop i (ring_contents (user_incoming ch))) \<longrightarrow>
          sfetch_pool_item_lookup p' h = sfetch_pool_item_lookup p h)"
  using len live
proof (induction k arbitrary: i p)
  case 0
  then show ?case by (simp del: ring_contents_length)
next
  case (Suc k)
  let ?cs = "ring_contents (user_incoming ch)"
  from Suc.prems(1) have il: "i < length ?cs" by simp
  then have d: "drop i ?cs = ?cs ! i # drop (Suc i) ?cs"
    by (simp add: Cons_nth_drop_Suc del: ring_contents_length)
  let ?h = "?cs ! i"
  from Suc.prems(2) d obtain item where
    it: "sfetch_pool_item_lookup p ?h = Some (Some item)"
    and st: "state item \<noteq> INITIAL" "state item \<noteq> OPENING" "state item \<noteq> FETCHING"
    by (metis list.set_intros(1))
  from dowork_prepare_item_flags[OF st] obtain item1 where
    pi: "dowork_prepare_item item = Some item1" by blast
  have h1: "handle item1 = ?h" using prepare_item_handle[OF pi] lookup_SomeD(7)[OF it] by simp
  let ?p1 = "pool_item_store p ?h item1"
  have notin: "?h \<notin> set (drop (Suc i) ?cs)"
    using dist d by (metis distinct.simps(2) distinct_drop)
  have other: "sfetch_pool_item_lookup ?p1 h = sfetch_pool_item_lookup p h" if "h \<noteq> ?h" for h
    using lookup_store_other[OF it h1 that] .
  have live1: "\<forall>h \<in> set (drop (Suc i) ?cs).
        \<exists>item. sfetch_pool_item_lookup ?p1 h = Some (Some item) \<and>
          state item \<noteq> INITIAL \<and> state item \<noteq> OPENING \<and> state item \<noteq> FETCHING"
  proof
    fix h assume hin: "h \<in> set (drop (Suc i) ?cs)"
    with notin have ne: "h \<noteq> ?h" by auto
    from hin d have "h \<in> set (drop i ?cs)" by (metis list.set_intros(2))
    with Suc.prems(2) other[OF ne]
    show "\<exists>item. sfetch_pool_item_lookup ?p1 h = Some (Some item) \<and>
          state item \<noteq> INITIAL \<and> state item \<noteq> OPENING \<and> state item \<noteq> FETCHING"
      by auto
  qed
  have len1: "Suc i + k = length ?cs" using Suc.prems(1) by simp
  from Suc.IH[OF len1 live1] obtain p' where
    r: "dowork_prepare_loop k (Suc i) ch ?p1 = Some p'"
    and a: "\<forall>h \<in> set (drop (Suc i) ?cs). \<exists>item item'.
        sfetch_pool_item_lookup ?p1 h = Some (Some item) \<and>
        dowork_prepare_item item = Some item' \<and>
        sfetch_pool_item_lookup p' h = Some (Some item')"
    and b: "\<forall>h. h \<notin> set (drop (Suc i) ?cs) \<longrightarrow>
          sfetch_pool_item_lookup p' h = sfetch_pool_item_lookup ?p1 h"
    by blast
  have pk: "sfetch_ring_peek (user_incoming ch) i = Some ?h"
    using ring_peek_contents[OF wf il] .
  have run: "dowork_prepare_loop (Suc k) i ch p = Some p'"
    using pk it pi r by simp
  have A: "\<exists>item item'.
        sfetch_pool_item_lookup p h = Some (Some item) \<and>
        dowork_prepare_item item = Some item' \<and>
        sfetch_pool_item_lookup p' h = Some (Some item')"
    if hin: "h \<in> set (drop i ?cs)" for h
  proof (cases "h = ?h")
    case True
    have "sfetch_pool_item_lookup p' ?h = sfetch_pool_item_lookup ?p1 ?h" using b notin by simp
    also have "\<dots> = Some (Some item1)" using lookup_store[OF it h1] .
    finally show ?thesis using it pi True by simp
  next
    case False
    with hin d have "h \<in> set (drop (Suc i) ?cs)" by (metis set_ConsD)
    with a obtain item item' where
      "sfetch_pool_item_lookup ?p1 h = Some (Some item)"
      "dowork_prepare_item item = Some item'"
      "sfetch_pool_item_lookup p' h = Some (Some item')" by blast
    then show ?thesis unfolding other[OF False] by blast
  qed
  have B: "sfetch_pool_item_lookup p' h = sfetch_pool_item_lookup p h"
    if hn: "h \<notin> set (drop i ?cs)" for h
  proof -
    from hn d have ne: "h \<noteq> ?h" and n2: "h \<notin> set (drop (Suc i) ?cs)"
      by (metis list.set_intros(1), metis list.set_intros(2))
    from b n2 other[OF ne] show ?thesis by simp
  qed
  from run A B show ?case by blast
qed

lemma prepare_pass:
  assumes wf: "ring_wf (user_incoming ch)"
    and dist: "distinct (ring_contents (user_incoming ch))"
    and live: "\<forall>h \<in> set (ring_contents (user_incoming ch)).
        \<exists>item. sfetch_pool_item_lookup p h = Some (Some item) \<and>
          state item \<noteq> INITIAL \<and> state item \<noteq> OPENING \<and> state item \<noteq> FETCHING"
  shows "\<exists>p'. dowork_prepare ch p = Some p' \<and>
    (\<forall>h \<in> set (ring_contents (user_incoming ch)). \<exists>item item'.
        sfetch_pool_item_lookup p h = Some (Some item) \<and>
        sfetch_pool_item_lookup p' h = Some (Some item') \<and>
        state item' = dispatch_state (flag_cancel (u_cancel (user item))
                        (flag_continue (u_cont (user item))
                          (flag_pause (u_pause (user item)) (state item)))) \<and>
        u_pause (user item') = False \<and>
        u_cont (user item') = False \<and>
        u_cancel (user item') = u_cancel (user item) \<and>
        u_finished (user item') = (u_finished (user item) \<or> u_cancel (user item)) \<and>
        item' = item\<lparr> state := state item',
                       user := (user item)\<lparr> u_pause := False, u_cont := False,
                                             u_finished := u_finished (user item') \<rparr> \<rparr>) \<and>
    (\<forall>h. h \<notin> set (ring_contents (user_incoming ch)) \<longrightarrow>
          sfetch_pool_item_lookup p' h = sfetch_pool_item_lookup p h)"
proof -
  let ?cs = "ring_contents (user_incoming ch)"
  let ?Q = "\<lambda>item item'.
        state item' = dispatch_state (flag_cancel (u_cancel (user item))
                        (flag_continue (u_cont (user item))
                          (flag_pause (u_pause (user item)) (state item)))) \<and>
        u_pause (user item') = False \<and>
        u_cont (user item') = False \<and>
        u_cancel (user item') = u_cancel (user item) \<and>
        u_finished (user item') = (u_finished (user item) \<or> u_cancel (user item)) \<and>
        item' = item\<lparr> state := state item',
                       user := (user item)\<lparr> u_pause := False, u_cont := False,
                                             u_finished := u_finished (user item') \<rparr> \<rparr>"
  have len: "0 + length ?cs = length ?cs" by simp
  have live0: "\<forall>h \<in> set (drop 0 ?cs).
        \<exists>item. sfetch_pool_item_lookup p h = Some (Some item) \<and>
          state item \<noteq> INITIAL \<and> state item \<noteq> OPENING \<and> state item \<noteq> FETCHING"
    using live by simp
  from prepare_loop[OF wf len dist live0] obtain p' where
    r: "dowork_prepare_loop (length ?cs) 0 ch p = Some p'"
    and a: "\<forall>h \<in> set ?cs. \<exists>item item'.
        sfetch_pool_item_lookup p h = Some (Some item) \<and>
        dowork_prepare_item item = Some item' \<and>
        sfetch_pool_item_lookup p' h = Some (Some item')"
    and b: "\<forall>h. h \<notin> set ?cs \<longrightarrow> sfetch_pool_item_lookup p' h = sfetch_pool_item_lookup p h"
    by (auto simp del: ring_contents_length)
  have c: "sfetch_ring_count (user_incoming ch) = Some (length ?cs)"
    using ring_count_contents[OF wf] by simp
  have run: "dowork_prepare ch p = Some p'"
    using r c by (simp add: dowork_prepare_def del: ring_contents_length)
  have A: "\<exists>item item'.
        sfetch_pool_item_lookup p h = Some (Some item) \<and>
        sfetch_pool_item_lookup p' h = Some (Some item') \<and> ?Q item item'"
    if hin: "h \<in> set ?cs" for h
  proof -
    from a hin obtain item item' where
      1: "sfetch_pool_item_lookup p h = Some (Some item)"
      and 2: "dowork_prepare_item item = Some item'"
      and 3: "sfetch_pool_item_lookup p' h = Some (Some item')" by blast
    from live hin 1 have st: "state item \<noteq> INITIAL" "state item \<noteq> OPENING" "state item \<noteq> FETCHING"
      by auto
    from dowork_prepare_item_flags[OF st] obtain x where
      x: "dowork_prepare_item item = Some x" and q: "?Q item x" by (elim exE conjE) simp
    from x 2 have e: "x = item'" by simp
    from q have "?Q item item'" unfolding e .
    with 1 3 show ?thesis by blast
  qed
  show ?thesis
  proof (intro exI[of _ p'] conjI ballI)
    show "dowork_prepare ch p = Some p'" by (rule run)
  next
    fix h assume "h \<in> set ?cs"
    then show "\<exists>item item'.
        sfetch_pool_item_lookup p h = Some (Some item) \<and>
        sfetch_pool_item_lookup p' h = Some (Some item') \<and> ?Q item item'" by (rule A)
  next
    show "\<forall>h. h \<notin> set ?cs \<longrightarrow> sfetch_pool_item_lookup p' h = sfetch_pool_item_lookup p h"
      by (rule b)
  qed
qed

text \<open>
  Claim C6.  The prepare step of a channel's dowork pass, \<open>dowork_prepare\<close>, on a
  well-formed user-incoming queue whose ids are distinct and live, with no item in state
  INITIAL, OPENING or FETCHING (the states that the code asserts away), returns, and for
  every id in the queue the item after the step is the item before it with the flags
  applied in the order pause, continue, cancel and the state then dispatched: a set pause
  flag gives PAUSED and is cleared; a set continue flag gives FETCHED only from PAUSED
  and is cleared; a set cancel flag gives FAILED and sets the user-side finished flag;
  then ALLOCATED becomes OPENING, OPENED and FETCHED become FETCHING, PAUSED and FAILED
  stay.  Nothing else in these items changes, and the items of all other ids are
  untouched.  In a pass of \<open>sfetch_channel_dowork\<close> whose admission step has given this
  channel and pool, the hand-over to the worker and the draining of the outgoing queue
  go on with the prepared pool.
\<close>

theorem dowork_prepare_flags:
  assumes wf: "ring_wf (user_incoming ch)"
    and dist: "distinct (ring_contents (user_incoming ch))"
    and live: "\<forall>h \<in> set (ring_contents (user_incoming ch)).
        \<exists>item. sfetch_pool_item_lookup p h = Some (Some item) \<and>
          state item \<noteq> INITIAL \<and> state item \<noteq> OPENING \<and> state item \<noteq> FETCHING"
  shows "\<exists>p'. dowork_prepare ch p = Some p' \<and>
    (\<forall>h \<in> set (ring_contents (user_incoming ch)). \<exists>item item'.
        sfetch_pool_item_lookup p h = Some (Some item) \<and>
        sfetch_pool_item_lookup p' h = Some (Some item') \<and>
        state item' = dispatch_state (flag_cancel (u_cancel (user item))
                        (flag_continue (u_cont (user item))
                          (flag_pause (u_pause (user item)) (state item)))) \<and>
        u_pause (user item') = False \<and>
        u_cont (user item') = False \<and>
        u_cancel (user item') = u_cancel (user item) \<and>
        u_finished (user item') = (u_finished (user item) \<or> u_cancel (user item)) \<and>
        item' = item\<lparr> state := state item',
                       user := (user item)\<lparr> u_pause := False, u_cont := False,
                                             u_finished := u_finished (user item') \<rparr> \<rparr>) \<and>
    (\<forall>h. h \<notin> set (ring_contents (user_incoming ch)) \<longrightarrow>
          sfetch_pool_item_lookup p' h = sfetch_pool_item_lookup p h) \<and>
    (\<forall>u c w ch0. array_get (chn (ctx w)) c = Some ch0 \<longrightarrow>
        dowork_admit ch0 (pool (ctx w)) = Some (ch, p) \<longrightarrow>
        sfetch_channel_dowork u c w = do {
          ch2 \<leftarrow> dowork_handoff ch;
          dowork_drain u c (w\<lparr> ctx := (ctx w)\<lparr> pool := p', chn := (chn (ctx w))[c := ch2] \<rparr> \<rparr>)
        })"
proof -
  from prepare_pass[OF wf dist live] obtain p' where
    r: "dowork_prepare ch p = Some p'"
    and a: "\<forall>h \<in> set (ring_contents (user_incoming ch)). \<exists>item item'.
        sfetch_pool_item_lookup p h = Some (Some item) \<and>
        sfetch_pool_item_lookup p' h = Some (Some item') \<and>
        state item' = dispatch_state (flag_cancel (u_cancel (user item))
                        (flag_continue (u_cont (user item))
                          (flag_pause (u_pause (user item)) (state item)))) \<and>
        u_pause (user item') = False \<and>
        u_cont (user item') = False \<and>
        u_cancel (user item') = u_cancel (user item) \<and>
        u_finished (user item') = (u_finished (user item) \<or> u_cancel (user item)) \<and>
        item' = item\<lparr> state := state item',
                       user := (user item)\<lparr> u_pause := False, u_cont := False,
                                             u_finished := u_finished (user item') \<rparr> \<rparr>"
    and b: "\<forall>h. h \<notin> set (ring_contents (user_incoming ch)) \<longrightarrow>
          sfetch_pool_item_lookup p' h = sfetch_pool_item_lookup p h"
    by blast
  have c: "\<forall>u c w ch0. array_get (chn (ctx w)) c = Some ch0 \<longrightarrow>
        dowork_admit ch0 (pool (ctx w)) = Some (ch, p) \<longrightarrow>
        sfetch_channel_dowork u c w = do {
          ch2 \<leftarrow> dowork_handoff ch;
          dowork_drain u c (w\<lparr> ctx := (ctx w)\<lparr> pool := p', chn := (chn (ctx w))[c := ch2] \<rparr> \<rparr>)
        }"
    using r by (simp add: sfetch_channel_dowork_def)
  show ?thesis by (rule exI[of _ p']) (intro conjI r a b c)
qed

theorem dowork_prepare_flags_witness:
  "\<exists>p'. dowork_prepare (fst demo_two_admitted) (snd demo_two_admitted) = Some p' \<and>
     ring_contents (user_incoming (fst demo_two_admitted)) = [0x10001, 0x10002] \<and>
     state (item_of (snd demo_two_admitted) 0x10001) = ALLOCATED \<and>
     state (item_of (snd demo_two_admitted) 0x10002) = ALLOCATED \<and>
     u_cancel (user (item_of (snd demo_two_admitted) 0x10002)) \<and>
     state (item_of p' 0x10001) = OPENING \<and>
     state (item_of p' 0x10002) = FAILED \<and> u_finished (user (item_of p' 0x10002)) \<and>
     map (\<lambda>h. state (item_of (pool (ctx (the (sfetch_dowork no_calls demo_two)))) h))
       [0x10001, 0x10002] = [OPENING, FAILED]"
proof -
  let ?ch = "fst demo_two_admitted" and ?p = "snd demo_two_admitted"
  have "let a = demo_two_admitted in
          ring_contents (user_incoming (fst a)) = [0x10001, 0x10002] \<and>
          ring_wf (user_incoming (fst a)) \<and>
          sfetch_pool_item_lookup (snd a) 0x10001 = Some (Some (item_of (snd a) 0x10001)) \<and>
          sfetch_pool_item_lookup (snd a) 0x10002 = Some (Some (item_of (snd a) 0x10002)) \<and>
          state (item_of (snd a) 0x10001) = ALLOCATED \<and>
          state (item_of (snd a) 0x10002) = ALLOCATED \<and>
          u_cancel (user (item_of (snd a) 0x10002)) \<and>
          \<not> u_cancel (user (item_of (snd a) 0x10001)) \<and>
          \<not> u_pause (user (item_of (snd a) 0x10001)) \<and>
          \<not> u_pause (user (item_of (snd a) 0x10002)) \<and>
          \<not> u_cont (user (item_of (snd a) 0x10001)) \<and>
          \<not> u_cont (user (item_of (snd a) 0x10002))"
    by code_simp
  then have cs: "ring_contents (user_incoming ?ch) = [0x10001, 0x10002]"
    and wf: "ring_wf (user_incoming ?ch)"
    and l1: "sfetch_pool_item_lookup ?p 0x10001 = Some (Some (item_of ?p 0x10001))"
      "sfetch_pool_item_lookup ?p 0x10002 = Some (Some (item_of ?p 0x10002))"
    and st: "state (item_of ?p 0x10001) = ALLOCATED" "state (item_of ?p 0x10002) = ALLOCATED"
      "u_cancel (user (item_of ?p 0x10002))" "\<not> u_cancel (user (item_of ?p 0x10001))"
      "\<not> u_pause (user (item_of ?p 0x10001))" "\<not> u_pause (user (item_of ?p 0x10002))"
      "\<not> u_cont (user (item_of ?p 0x10001))" "\<not> u_cont (user (item_of ?p 0x10002))"
    unfolding Let_def by blast+
  have run: "map (\<lambda>h. state (item_of (pool (ctx (the (sfetch_dowork no_calls demo_two)))) h))
       [0x10001, 0x10002] = [OPENING, FAILED]" by code_simp
  have dist: "distinct (ring_contents (user_incoming ?ch))" unfolding cs by simp
  have live: "\<forall>h \<in> set (ring_contents (user_incoming ?ch)).
        \<exists>item. sfetch_pool_item_lookup ?p h = Some (Some item) \<and>
          state item \<noteq> INITIAL \<and> state item \<noteq> OPENING \<and> state item \<noteq> FETCHING"
    unfolding cs using l1 st by simp
  from dowork_prepare_flags[OF wf dist live] obtain p' where
    r: "dowork_prepare ?ch ?p = Some p'"
    and a: "\<forall>h \<in> set (ring_contents (user_incoming ?ch)). \<exists>item item'.
        sfetch_pool_item_lookup ?p h = Some (Some item) \<and>
        sfetch_pool_item_lookup p' h = Some (Some item') \<and>
        state item' = dispatch_state (flag_cancel (u_cancel (user item))
                        (flag_continue (u_cont (user item))
                          (flag_pause (u_pause (user item)) (state item)))) \<and>
        u_pause (user item') = False \<and>
        u_cont (user item') = False \<and>
        u_cancel (user item') = u_cancel (user item) \<and>
        u_finished (user item') = (u_finished (user item) \<or> u_cancel (user item)) \<and>
        item' = item\<lparr> state := state item',
                       user := (user item)\<lparr> u_pause := False, u_cont := False,
                                             u_finished := u_finished (user item') \<rparr> \<rparr>"
    by blast
  have m1: "(0x10001 :: u32) \<in> set (ring_contents (user_incoming ?ch))"
    and m2: "(0x10002 :: u32) \<in> set (ring_contents (user_incoming ?ch))"
    unfolding cs by simp_all
  from a m1 obtain x x' where
    x: "sfetch_pool_item_lookup ?p 0x10001 = Some (Some x)"
       "sfetch_pool_item_lookup p' 0x10001 = Some (Some x')"
       "state x' = dispatch_state (flag_cancel (u_cancel (user x))
                        (flag_continue (u_cont (user x))
                          (flag_pause (u_pause (user x)) (state x))))"
    by blast
  from x(1) l1(1) have xe: "x = item_of ?p 0x10001" by simp
  have a1: "state (item_of p' 0x10001) = OPENING"
    using x(2,3) st unfolding xe
    by (simp add: item_of_def flag_pause_def flag_continue_def flag_cancel_def)
  from a m2 obtain y y' where
    y: "sfetch_pool_item_lookup ?p 0x10002 = Some (Some y)"
       "sfetch_pool_item_lookup p' 0x10002 = Some (Some y')"
       "state y' = dispatch_state (flag_cancel (u_cancel (user y))
                        (flag_continue (u_cont (user y))
                          (flag_pause (u_pause (user y)) (state y))))"
       "u_finished (user y') = (u_finished (user y) \<or> u_cancel (user y))"
    by blast
  from y(1) l1(2) have ye: "y = item_of ?p 0x10002" by simp
  have a2: "state (item_of p' 0x10002) = FAILED \<and> u_finished (user (item_of p' 0x10002))"
    using y(2,3,4) st unfolding ye
    by (simp add: item_of_def flag_pause_def flag_continue_def flag_cancel_def)
  from a2 have a2a: "state (item_of p' 0x10002) = FAILED"
    and a2b: "u_finished (user (item_of p' 0x10002))" by simp_all
  show ?thesis
    by (rule exI[of _ p']) (intro conjI r cs st(1) st(2) st(3) a1 a2a a2b run)
qed

subsection \<open>What every step of the engine keeps\<close>





lemma pool_same_refl [simp]: "pool_same p p"
  by (simp add: pool_same_def)




lemma handle_zero_item [simp]: "handle zero_item = 0"
  by (simp add: zero_item_def)
















































lemma engine_wf_in_callback [simp]: "engine_wf (cx\<lparr> in_callback := b \<rparr>) = engine_wf cx"
  by (simp add: engine_wf_def)

lemma qsum_in_callback [simp]: "qsum (cx\<lparr> in_callback := b \<rparr>) = qsum cx"
  by (simp add: qsum_def)












subsection \<open>The states of the engine\<close>



lemma api_calls_state:
  "engine_state io d cx pd \<Longrightarrow> exec_api_calls as cx = Some cx' \<Longrightarrow> engine_state io d cx' pd"
proof (induction as arbitrary: cx)
  case Nil
  then show ?case by simp
next
  case (Cons a as)
  from Cons.prems(2) obtain c1 where
    1: "exec_api_call a cx = Some c1" and 2: "exec_api_calls as c1 = Some cx'"
    by (auto split: Option.bind_splits)
  from Cons.IH[OF st_call[OF Cons.prems(1) 1] 2] show ?case .
qed

lemma api_calls_prefix:
  "exec_api_calls as cx = Some cx' \<Longrightarrow> \<exists>ck. exec_api_calls (take k as) cx = Some ck"
proof (induction as arbitrary: cx k)
  case Nil
  then show ?case by simp
next
  case (Cons a as)
  from Cons.prems obtain c1 where
    1: "exec_api_call a cx = Some c1" and 2: "exec_api_calls as c1 = Some cx'"
    by (auto split: Option.bind_splits)
  show ?case
  proof (cases k)
    case 0
    then show ?thesis by simp
  next
    case (Suc j)
    from Cons.IH[OF 2, of j] 1 show ?thesis unfolding Suc by simp
  qed
qed

lemma drain_item_split:
  assumes di: "dowork_drain_item u c slot_id w = Some w'"
  shows "\<exists>item cx1 item1 ch1.
    sfetch_pool_item_lookup (pool (ctx w)) slot_id = Some (Some item) \<and>
    exec_api_calls (u (callback (dowork_transfer_output item)) (delivered w)
                      (dowork_response slot_id (dowork_transfer_output item)))
      ((ctx w)\<lparr> pool := pool_item_store (pool (ctx w)) slot_id (dowork_transfer_output item) \<rparr>)
      = Some cx1 \<and>
    array_get (items (pool cx1)) (unat (sfetch_slot_index slot_id)) = Some item1 \<and>
    array_get (chn cx1) c = Some ch1 \<and>
    (if u_finished (user item1)
     then \<exists>fl p. sfetch_ring_enqueue (free_lanes ch1) (lane item1) = Some fl \<and>
                 sfetch_pool_item_free (pool cx1) slot_id = Some p \<and>
                 ctx w' = cx1\<lparr> chn := (chn cx1)[c := ch1\<lparr> free_lanes := fl \<rparr>], pool := p \<rparr>
     else \<exists>inc. sfetch_ring_enqueue (user_incoming ch1) slot_id = Some inc \<and>
                 ctx w' = cx1\<lparr> chn := (chn cx1)[c := ch1\<lparr> user_incoming := inc \<rparr>] \<rparr>)"
  using di
  by (auto simp: dowork_drain_item_def Let_def
      split: if_splits Option.bind_splits)


lemma callback_calls_state:
  assumes st: "engine_state io d cx None" and ch: "array_get (chn cx) c = Some ch"
    and dq: "sfetch_ring_dequeue (user_outgoing ch) = Some (slot_id, out)"
    and w: "ctx w = cx\<lparr> chn := (chn cx)[c := ch\<lparr> user_outgoing := out \<rparr>] \<rparr>"
    and di: "dowork_drain_item u c slot_id w = Some w'"
  shows "\<exists>item. sfetch_pool_item_lookup (pool (ctx w)) slot_id = Some (Some item) \<and>
    (\<forall>k. \<exists>ck.
       exec_api_calls
         (take k (u (callback (dowork_transfer_output item)) (delivered w)
                    (dowork_response slot_id (dowork_transfer_output item))))
         ((ctx w)\<lparr> pool := pool_item_store (pool (ctx w)) slot_id
                              (dowork_transfer_output item) \<rparr>) = Some ck \<and>
       engine_state io d ck (Some (c, slot_id)))"
proof -
  from drain_item_split[OF di] obtain item cx1 where
    lk: "sfetch_pool_item_lookup (pool (ctx w)) slot_id = Some (Some item)"
    and ex: "exec_api_calls (u (callback (dowork_transfer_output item)) (delivered w)
                      (dowork_response slot_id (dowork_transfer_output item)))
      ((ctx w)\<lparr> pool := pool_item_store (pool (ctx w)) slot_id (dowork_transfer_output item) \<rparr>)
      = Some cx1"
    by blast
  from lk w have lk': "sfetch_pool_item_lookup (pool cx) slot_id = Some (Some item)" by simp
  have cb: "(ctx w)\<lparr> pool := pool_item_store (pool (ctx w)) slot_id (dowork_transfer_output item) \<rparr>
            = cx\<lparr> chn := (chn cx)[c := ch\<lparr> user_outgoing := out \<rparr>],
                   pool := pool_item_store (pool cx) slot_id (dowork_transfer_output item) \<rparr>"
    unfolding w by simp
  from st_callback[OF st ch dq lk'] have s0:
    "engine_state io d ((ctx w)\<lparr> pool := pool_item_store (pool (ctx w)) slot_id
                                     (dowork_transfer_output item) \<rparr>) (Some (c, slot_id))"
    unfolding cb .
  have "\<exists>ck. exec_api_calls
         (take k (u (callback (dowork_transfer_output item)) (delivered w)
                    (dowork_response slot_id (dowork_transfer_output item))))
         ((ctx w)\<lparr> pool := pool_item_store (pool (ctx w)) slot_id
                              (dowork_transfer_output item) \<rparr>) = Some ck \<and>
       engine_state io d ck (Some (c, slot_id))" for k
  proof -
    from api_calls_prefix[OF ex, of k] obtain ck where
      p: "exec_api_calls
         (take k (u (callback (dowork_transfer_output item)) (delivered w)
                    (dowork_response slot_id (dowork_transfer_output item))))
         ((ctx w)\<lparr> pool := pool_item_store (pool (ctx w)) slot_id
                              (dowork_transfer_output item) \<rparr>) = Some ck" by blast
    from api_calls_state[OF s0 p] p show ?thesis by blast
  qed
  with lk show ?thesis by blast
qed









subsection \<open>Failing sends\<close>




end
